theory Spec2Isabelle
  imports Complex_Main "HOL-Library.Word" "HOL-Library.Sublist" "HOL-Library.Log_Nat"
begin

section \<open>JavaScript values handled by the validation route\<close>

text \<open>
  The validation route reads \<open>{ clients, workers, tasks }\<close> from the parsed request body.
  A parsed JSON value is null, a boolean, a number, a string, an array or an object;
  \<open>JUndefined\<close> is what reading an absent property gives. Numbers are the parsed doubles:
  a finite value (as a rational; the two zeros are one value here), an infinity (the parse
  of \<open>1e999\<close>) or \<open>NaN\<close> (never in a body, but the result of a failed conversion).
  An object is the list of its own properties (a lookup takes the first binding of a key);
  a row is such a list. The rules compare strings, test them for emptiness and concatenate
  them, and do nothing else with their characters: strings are lists of \<open>char\<close> here.
\<close>

datatype jsnum = NaN | NegInf | Fin rat | PosInf

datatype jsval =
    JUndefined
  | JNull
  | JBool bool
  | JNum jsnum
  | JStr string
  | JArr "jsval list"
  | JObj "(string \<times> jsval) list"

type_synonym row = "(string \<times> jsval) list"

datatype exn = TypeError

text \<open>
  Three library operations of the language are taken as parameters: the conversion of a
  number to its decimal text, the conversion of a string to a number (\<open>Number(s)\<close>), and
  whether \<open>JSON.parse\<close> accepts a string.
\<close>

record builtins =
  number_to_string :: "jsnum \<Rightarrow> string"
  string_to_number :: "string \<Rightarrow> jsnum"
  json_parses :: "string \<Rightarrow> bool"

definition bindE :: "'e + 'a \<Rightarrow> ('a \<Rightarrow> 'e + 'b) \<Rightarrow> 'e + 'b" where
  "bindE m f = (case m of Inl e \<Rightarrow> Inl e | Inr x \<Rightarrow> f x)"

text \<open>\<open>row[fieldName]\<close>: the property's value, or undefined when the row has no such key.\<close>

definition get_prop :: "row \<Rightarrow> string \<Rightarrow> jsval" where
  "get_prop r k = (case map_of r k of None \<Rightarrow> JUndefined | Some v \<Rightarrow> v)"

text \<open>\<open>Object.keys(row)\<close>.\<close>

definition object_keys :: "row \<Rightarrow> string list" where
  "object_keys r = map fst r"

fun truthy :: "jsval \<Rightarrow> bool" where
  "truthy JUndefined = False"
| "truthy JNull = False"
| "truthy (JBool b) = b"
| "truthy (JNum n) = (n \<noteq> NaN \<and> n \<noteq> Fin 0)"
| "truthy (JStr s) = (s \<noteq> [])"
| "truthy (JArr vs) = True"
| "truthy (JObj ps) = True"

fun typeof :: "jsval \<Rightarrow> string" where
  "typeof JUndefined = ''undefined''"
| "typeof JNull = ''object''"
| "typeof (JBool b) = ''boolean''"
| "typeof (JNum n) = ''number''"
| "typeof (JStr s) = ''string''"
| "typeof (JArr vs) = ''object''"
| "typeof (JObj ps) = ''object''"

fun is_primitive :: "jsval \<Rightarrow> bool" where
  "is_primitive (JArr vs) = False"
| "is_primitive (JObj ps) = False"
| "is_primitive v = True"

fun num_less :: "jsnum \<Rightarrow> jsnum \<Rightarrow> bool" where
  "num_less NaN b = False"
| "num_less a NaN = False"
| "num_less PosInf b = False"
| "num_less a NegInf = False"
| "num_less NegInf b = True"
| "num_less a PosInf = True"
| "num_less (Fin a) (Fin b) = (a < b)"

definition num_of_nat :: "nat \<Rightarrow> jsnum" where
  "num_of_nat n = Fin (of_nat n)"

subsection \<open>Conversion to string and to number\<close>

fun intercalate :: "string \<Rightarrow> string list \<Rightarrow> string" where
  "intercalate sep [] = []"
| "intercalate sep [x] = x"
| "intercalate sep (x # y # ys) = x @ sep @ intercalate sep (y # ys)"

fun sequence :: "('e + 'a) list \<Rightarrow> 'e + 'a list" where
  "sequence [] = Inr []"
| "sequence (r # rs) =
     (case r of
        Inl e \<Rightarrow> Inl e
      | Inr x \<Rightarrow> (case sequence rs of Inl e \<Rightarrow> Inl e | Inr xs \<Rightarrow> Inr (x # xs)))"

text \<open>
  \<open>String(v)\<close>, as a template literal and \<open>Array.prototype.join\<close> apply it. An array is
  joined with commas, null and undefined elements giving the empty string. A parsed object
  has \<open>Object.prototype\<close> as prototype: its inherited \<open>toString\<close> gives
  \<open>[object Object]\<close>; when the object has an own property named \<open>toString\<close>, that
  property is parsed data and not callable, the inherited \<open>valueOf\<close> (or an own,
  uncallable one) gives no primitive either, and the conversion throws a TypeError.
\<close>

fun toString :: "builtins \<Rightarrow> jsval \<Rightarrow> exn + string" where
  "toString env JUndefined = Inr ''undefined''"
| "toString env JNull = Inr ''null''"
| "toString env (JBool b) = Inr (if b then ''true'' else ''false'')"
| "toString env (JNum n) = Inr (number_to_string env n)"
| "toString env (JStr s) = Inr s"
| "toString env (JArr vs) =
     (case sequence (map (\<lambda>v. if v = JUndefined \<or> v = JNull then Inr [] else toString env v) vs) of
        Inl e \<Rightarrow> Inl e
      | Inr ss \<Rightarrow> Inr (intercalate '','' ss))"
| "toString env (JObj ps) =
     (if ''toString'' \<in> set (map fst ps) then Inl TypeError else Inr ''[object Object]'')"

text \<open>\<open>vs.join(sep)\<close>.\<close>

definition join :: "builtins \<Rightarrow> string \<Rightarrow> jsval list \<Rightarrow> exn + string" where
  "join env sep vs =
     (case sequence (map (\<lambda>v. if v = JUndefined \<or> v = JNull then Inr [] else toString env v) vs) of
        Inl e \<Rightarrow> Inl e
      | Inr ss \<Rightarrow> Inr (intercalate sep ss))"

text \<open>
  \<open>Number(v)\<close>. An array or object is first converted to a primitive with hint number:
  \<open>valueOf\<close> gives no primitive, so the result is that of \<open>toString\<close>, converted.
\<close>

fun toNumber :: "builtins \<Rightarrow> jsval \<Rightarrow> exn + jsnum" where
  "toNumber env JUndefined = Inr NaN"
| "toNumber env JNull = Inr (Fin 0)"
| "toNumber env (JBool b) = Inr (Fin (if b then 1 else 0))"
| "toNumber env (JNum n) = Inr n"
| "toNumber env (JStr s) = Inr (string_to_number env s)"
| "toNumber env v = bindE (toString env v) (\<lambda>s. Inr (string_to_number env s))"

subsection \<open>Sets of values\<close>

text \<open>
  A \<open>Set\<close> compares with SameValueZero: primitives by value, arrays and objects by
  reference. Every array or object of a parsed body is a reference of its own, and the
  rules only look up a value read from one place in a set filled from another, so an array
  or object is never found.
\<close>

definition same_value_zero :: "jsval \<Rightarrow> jsval \<Rightarrow> bool" where
  "same_value_zero a b = (is_primitive a \<and> a = b)"

definition set_has :: "jsval list \<Rightarrow> jsval \<Rightarrow> bool" where
  "set_has s v = list_ex (\<lambda>x. same_value_zero x v) s"

definition set_add :: "jsval list \<Rightarrow> jsval \<Rightarrow> jsval list" where
  "set_add s v = (if set_has s v then s else s @ [v])"

definition new_Set :: "jsval list \<Rightarrow> jsval list" where
  "new_Set vs = foldl set_add [] vs"

section \<open>Validation errors and the rule functions\<close>

datatype severity = SevError | SevWarning

record ValidationError =
  id' :: string
  type' :: string
  message :: string
  severity :: severity
  entityType :: string
  rowIndex :: nat
  columnName :: string
  suggestions :: "string list"

text \<open>\<open>data.forEach((row, index) => ...)\<close>, with the state the callback updates; a throw ends it.\<close>

fun forEach :: "('a \<Rightarrow> nat \<Rightarrow> 's \<Rightarrow> exn + 's) \<Rightarrow> 'a list \<Rightarrow> nat \<Rightarrow> 's \<Rightarrow> exn + 's" where
  "forEach f [] index s = Inr s"
| "forEach f (x # xs) index s =
     (case f x index s of Inl e \<Rightarrow> Inl e | Inr s' \<Rightarrow> forEach f xs (Suc index) s')"

definition index_str :: "builtins \<Rightarrow> nat \<Rightarrow> string" where
  "index_str env i = number_to_string env (num_of_nat i)"

subsection \<open>1. Missing required columns\<close>

definition validateRequiredColumns ::
  "row list \<Rightarrow> string \<Rightarrow> string list \<Rightarrow> ValidationError list \<Rightarrow> exn + ValidationError list" where
  "validateRequiredColumns data entity requiredColumns errors =
     (case data of
        [] \<Rightarrow> Inr errors
      | first # rest \<Rightarrow>
          (let availableColumns = object_keys first;
               missingColumns = filter (\<lambda>col. col \<notin> set availableColumns) requiredColumns
           in if length missingColumns > 0 then
                Inr (errors @ [\<lparr> id' = ''missing-columns-'' @ entity,
                                 type' = ''missingColumns'',
                                 message = ''Missing required columns: '' @ intercalate '', '' missingColumns,
                                 severity = SevError,
                                 entityType = entity,
                                 rowIndex = 0,
                                 columnName = hd missingColumns,
                                 suggestions = [''Add columns: '' @ intercalate '', '' missingColumns] \<rparr>])
              else Inr errors))"

subsection \<open>2. Duplicate identifiers\<close>

record unique_state =
  ids :: "jsval list"
  duplicates :: "jsval list"
  errs :: "ValidationError list"

definition uniqueIdsRow ::
  "builtins \<Rightarrow> string \<Rightarrow> string \<Rightarrow> row \<Rightarrow> nat \<Rightarrow> unique_state \<Rightarrow> exn + unique_state" where
  "uniqueIdsRow env entity idColumn r index st =
     (let ident = get_prop r idColumn in
      if truthy ident then
        if set_has (ids st) ident then
          bindE (toString env ident) (\<lambda>shown.
            Inr (st \<lparr> duplicates := set_add (duplicates st) ident,
                      errs := errs st @
                        [\<lparr> id' = ''duplicate-id-'' @ entity @ ''-'' @ index_str env index,
                           type' = ''duplicateId'',
                           message = ''Duplicate '' @ idColumn @ '': '' @ shown,
                           severity = SevError,
                           entityType = entity,
                           rowIndex = index,
                           columnName = idColumn,
                           suggestions = [''Change '' @ idColumn @ '' to a unique value''] \<rparr>] \<rparr>))
        else Inr (st \<lparr> ids := set_add (ids st) ident \<rparr>)
      else Inr st)"

definition validateUniqueIds ::
  "builtins \<Rightarrow> row list \<Rightarrow> string \<Rightarrow> string \<Rightarrow> ValidationError list \<Rightarrow> exn + ValidationError list" where
  "validateUniqueIds env data entity idColumn errors =
     (if data = [] then Inr errors
      else bindE (forEach (uniqueIdsRow env entity idColumn) data 0
                    \<lparr> ids = [], duplicates = [], errs = errors \<rparr>)
             (\<lambda>st. Inr (errs st)))"

subsection \<open>3. Malformed lists\<close>

definition arrayFieldsRow ::
  "builtins \<Rightarrow> string \<Rightarrow> string \<Rightarrow> string \<Rightarrow> row \<Rightarrow> nat \<Rightarrow> ValidationError list
     \<Rightarrow> exn + ValidationError list" where
  "arrayFieldsRow env entity fieldName expectedType r index errors =
     (let v = get_prop r fieldName in
      if v \<noteq> JUndefined \<and> v \<noteq> JNull then
        (case v of
           JArr items \<Rightarrow>
             (let invalidElements =
                    filter (\<lambda>item. if expectedType = ''number''
                                    then typeof item \<noteq> ''number'' \<or> item = JNum NaN
                                    else typeof item \<noteq> expectedType) items
              in if length invalidElements > 0 then
                   bindE (join env '', '' invalidElements) (\<lambda>shown.
                     Inr (errors @
                       [\<lparr> id' = ''invalid-array-elements-'' @ entity @ ''-'' @ index_str env index
                                  @ ''-'' @ fieldName,
                          type' = ''invalidArrayElements'',
                          message = fieldName @ '' contains invalid '' @ expectedType @ '' values: ''
                                      @ shown,
                          severity = SevError,
                          entityType = entity,
                          rowIndex = index,
                          columnName = fieldName,
                          suggestions = [''Ensure all '' @ fieldName @ '' values are valid ''
                                           @ expectedType @ ''s''] \<rparr>]))
                 else Inr errors)
         | _ \<Rightarrow>
             Inr (errors @
               [\<lparr> id' = ''malformed-array-'' @ entity @ ''-'' @ index_str env index @ ''-'' @ fieldName,
                  type' = ''malformedArray'',
                  message = fieldName @ '' should be an array'',
                  severity = SevError,
                  entityType = entity,
                  rowIndex = index,
                  columnName = fieldName,
                  suggestions = [''Convert '' @ fieldName @ '' to array format''] \<rparr>]))
      else Inr errors)"

definition validateArrayFields ::
  "builtins \<Rightarrow> row list \<Rightarrow> string \<Rightarrow> string \<Rightarrow> string \<Rightarrow> ValidationError list
     \<Rightarrow> exn + ValidationError list" where
  "validateArrayFields env data entity fieldName expectedType errors =
     (if data = [] then Inr errors
      else forEach (arrayFieldsRow env entity fieldName expectedType) data 0 errors)"

subsection \<open>4. Out-of-range values\<close>

definition rangeRow ::
  "builtins \<Rightarrow> string \<Rightarrow> string \<Rightarrow> jsnum \<Rightarrow> jsnum \<Rightarrow> row \<Rightarrow> nat \<Rightarrow> ValidationError list
     \<Rightarrow> exn + ValidationError list" where
  "rangeRow env entity fieldName lo hi r index errors =
     (let v = get_prop r fieldName in
      if v \<noteq> JUndefined \<and> v \<noteq> JNull then
        bindE (toNumber env v) (\<lambda>numValue.
          if numValue = NaN \<or> num_less numValue lo \<or> num_less hi numValue then
            bindE (toString env v) (\<lambda>shown.
              Inr (errors @
                [\<lparr> id' = ''out-of-range-'' @ entity @ ''-'' @ index_str env index @ ''-'' @ fieldName,
                   type' = ''outOfRange'',
                   message = fieldName @ '' must be between '' @ number_to_string env lo
                               @ '' and '' @ number_to_string env hi @ '', got: '' @ shown,
                   severity = SevError,
                   entityType = entity,
                   rowIndex = index,
                   columnName = fieldName,
                   suggestions = [''Set '' @ fieldName @ '' to a value between ''
                                    @ number_to_string env lo @ '' and ''
                                    @ number_to_string env hi] \<rparr>]))
          else Inr errors)
      else Inr errors)"

definition validateRange ::
  "builtins \<Rightarrow> row list \<Rightarrow> string \<Rightarrow> string \<Rightarrow> jsnum \<Rightarrow> jsnum \<Rightarrow> ValidationError list
     \<Rightarrow> exn + ValidationError list" where
  "validateRange env data entity fieldName lo hi errors =
     (if data = [] then Inr errors
      else forEach (rangeRow env entity fieldName lo hi) data 0 errors)"

definition minValueRow ::
  "builtins \<Rightarrow> string \<Rightarrow> string \<Rightarrow> jsnum \<Rightarrow> row \<Rightarrow> nat \<Rightarrow> ValidationError list
     \<Rightarrow> exn + ValidationError list" where
  "minValueRow env entity fieldName lo r index errors =
     (let v = get_prop r fieldName in
      if v \<noteq> JUndefined \<and> v \<noteq> JNull then
        bindE (toNumber env v) (\<lambda>numValue.
          if numValue = NaN \<or> num_less numValue lo then
            bindE (toString env v) (\<lambda>shown.
              Inr (errors @
                [\<lparr> id' = ''below-minimum-'' @ entity @ ''-'' @ index_str env index @ ''-'' @ fieldName,
                   type' = ''belowMinimum'',
                   message = fieldName @ '' must be at least '' @ number_to_string env lo
                               @ '', got: '' @ shown,
                   severity = SevError,
                   entityType = entity,
                   rowIndex = index,
                   columnName = fieldName,
                   suggestions = [''Set '' @ fieldName @ '' to '' @ number_to_string env lo
                                    @ '' or higher''] \<rparr>]))
          else Inr errors)
      else Inr errors)"

definition validateMinValue ::
  "builtins \<Rightarrow> row list \<Rightarrow> string \<Rightarrow> string \<Rightarrow> jsnum \<Rightarrow> ValidationError list
     \<Rightarrow> exn + ValidationError list" where
  "validateMinValue env data entity fieldName lo errors =
     (if data = [] then Inr errors
      else forEach (minValueRow env entity fieldName lo) data 0 errors)"

subsection \<open>5. Broken JSON\<close>

definition jsonRow ::
  "builtins \<Rightarrow> string \<Rightarrow> string \<Rightarrow> row \<Rightarrow> nat \<Rightarrow> ValidationError list
     \<Rightarrow> exn + ValidationError list" where
  "jsonRow env entity fieldName r index errors =
     (let v = get_prop r fieldName in
      if truthy v \<and> typeof v = ''string'' then
        (case v of
           JStr text \<Rightarrow>
             if json_parses env text then Inr errors
             else
               Inr (errors @
                 [\<lparr> id' = ''invalid-json-'' @ entity @ ''-'' @ index_str env index @ ''-'' @ fieldName,
                    type' = ''invalidJSON'',
                    message = fieldName @ '' contains invalid JSON'',
                    severity = SevError,
                    entityType = entity,
                    rowIndex = index,
                    columnName = fieldName,
                    suggestions = [''Fix JSON syntax or use empty object {}''] \<rparr>])
         | _ \<Rightarrow> Inr errors)
      else Inr errors)"

definition validateJSON ::
  "builtins \<Rightarrow> row list \<Rightarrow> string \<Rightarrow> string \<Rightarrow> ValidationError list
     \<Rightarrow> exn + ValidationError list" where
  "validateJSON env data entity fieldName errors =
     (if data = [] then Inr errors
      else forEach (jsonRow env entity fieldName) data 0 errors)"

subsection \<open>6. Unknown references\<close>

definition taskReferencesRow ::
  "builtins \<Rightarrow> jsval list \<Rightarrow> row \<Rightarrow> nat \<Rightarrow> ValidationError list \<Rightarrow> exn + ValidationError list" where
  "taskReferencesRow env taskIds client index errors =
     (case get_prop client ''RequestedTaskIDs'' of
        JArr requestedTasks \<Rightarrow>
          (let unknownTasks = filter (\<lambda>taskId. \<not> set_has taskIds taskId) requestedTasks
           in if length unknownTasks > 0 then
                bindE (join env '', '' unknownTasks) (\<lambda>shown.
                  Inr (errors @
                    [\<lparr> id' = ''unknown-task-refs-'' @ index_str env index,
                       type' = ''unknownReferences'',
                       message = ''Unknown task references: '' @ shown,
                       severity = SevError,
                       entityType = ''clients'',
                       rowIndex = index,
                       columnName = ''RequestedTaskIDs'',
                       suggestions = [''Remove unknown task IDs or add missing tasks''] \<rparr>]))
              else Inr errors)
      | _ \<Rightarrow> Inr errors)"

definition validateTaskReferences ::
  "builtins \<Rightarrow> row list \<Rightarrow> row list \<Rightarrow> ValidationError list \<Rightarrow> exn + ValidationError list" where
  "validateTaskReferences env clients tasks errors =
     (if clients = [] \<or> tasks = [] then Inr errors
      else
        (let taskIds = new_Set (filter truthy (map (\<lambda>task. get_prop task ''TaskID'') tasks))
         in forEach (taskReferencesRow env taskIds) clients 0 errors))"

subsection \<open>7. Overloaded workers\<close>

definition workerCapacityRow ::
  "builtins \<Rightarrow> row \<Rightarrow> nat \<Rightarrow> ValidationError list \<Rightarrow> exn + ValidationError list" where
  "workerCapacityRow env worker index errors =
     (let availableSlots = get_prop worker ''AvailableSlots'';
          maxLoad = get_prop worker ''MaxLoadPerPhase''
      in case (availableSlots, maxLoad) of
           (JArr slots, JNum load) \<Rightarrow>
             if num_less (num_of_nat (length slots)) load then
               Inr (errors @
                 [\<lparr> id' = ''overloaded-worker-'' @ index_str env index,
                    type' = ''overloadedWorker'',
                    message = ''Worker has '' @ index_str env (length slots)
                                @ '' available slots but MaxLoadPerPhase is ''
                                @ number_to_string env load,
                    severity = SevWarning,
                    entityType = ''workers'',
                    rowIndex = index,
                    columnName = ''MaxLoadPerPhase'',
                    suggestions = [''Reduce MaxLoadPerPhase to '' @ index_str env (length slots)
                                     @ '' or add more available slots''] \<rparr>])
             else Inr errors
         | _ \<Rightarrow> Inr errors)"

definition validateWorkerCapacity ::
  "builtins \<Rightarrow> row list \<Rightarrow> ValidationError list \<Rightarrow> exn + ValidationError list" where
  "validateWorkerCapacity env workers errors =
     (if workers = [] then Inr errors
      else forEach (workerCapacityRow env) workers 0 errors)"

subsection \<open>8. Skill coverage\<close>

definition collectSkills :: "row list \<Rightarrow> jsval list" where
  "collectSkills workers =
     foldl (\<lambda>availableSkills worker.
              case get_prop worker ''Skills'' of
                JArr skills \<Rightarrow> foldl set_add availableSkills skills
              | _ \<Rightarrow> availableSkills) [] workers"

definition skillCoverageRow ::
  "builtins \<Rightarrow> jsval list \<Rightarrow> row \<Rightarrow> nat \<Rightarrow> ValidationError list \<Rightarrow> exn + ValidationError list" where
  "skillCoverageRow env availableSkills task index errors =
     (case get_prop task ''RequiredSkills'' of
        JArr requiredSkills \<Rightarrow>
          (let uncoveredSkills = filter (\<lambda>skill. \<not> set_has availableSkills skill) requiredSkills
           in if length uncoveredSkills > 0 then
                bindE (join env '', '' uncoveredSkills) (\<lambda>shown.
                  Inr (errors @
                    [\<lparr> id' = ''uncovered-skills-'' @ index_str env index,
                       type' = ''uncoveredSkills'',
                       message = ''Required skills not available in worker pool: '' @ shown,
                       severity = SevWarning,
                       entityType = ''tasks'',
                       rowIndex = index,
                       columnName = ''RequiredSkills'',
                       suggestions = [''Add workers with these skills or remove skill requirements''] \<rparr>]))
              else Inr errors)
      | _ \<Rightarrow> Inr errors)"

definition validateSkillCoverage ::
  "builtins \<Rightarrow> row list \<Rightarrow> row list \<Rightarrow> ValidationError list \<Rightarrow> exn + ValidationError list" where
  "validateSkillCoverage env workers tasks errors =
     (if workers = [] \<or> tasks = [] then Inr errors
      else forEach (skillCoverageRow env (collectSkills workers)) tasks 0 errors)"

section \<open>The route handler\<close>

text \<open>
  The handler calls the rule functions one after the other on one shared \<open>errors\<close>
  array. A throw in any of them leaves the \<open>try\<close> block: the handler then answers with
  an empty list and status 500.
\<close>

type_synonym rule = "ValidationError list \<Rightarrow> exn + ValidationError list"

definition rule_calls :: "builtins \<Rightarrow> row list \<Rightarrow> row list \<Rightarrow> row list \<Rightarrow> rule list" where
  "rule_calls env clients workers tasks =
     [ validateRequiredColumns clients ''clients'' [''ClientID'', ''Name'', ''PriorityLevel''],
       validateRequiredColumns workers ''workers'' [''WorkerID'', ''Name'', ''Skills'', ''AvailableSlots''],
       validateRequiredColumns tasks ''tasks'' [''TaskID'', ''Name'', ''Duration'', ''RequiredSkills''],
       validateUniqueIds env clients ''clients'' ''ClientID'',
       validateUniqueIds env workers ''workers'' ''WorkerID'',
       validateUniqueIds env tasks ''tasks'' ''TaskID'',
       validateArrayFields env workers ''workers'' ''AvailableSlots'' ''number'',
       validateArrayFields env workers ''workers'' ''Skills'' ''string'',
       validateArrayFields env tasks ''tasks'' ''RequiredSkills'' ''string'',
       validateArrayFields env tasks ''tasks'' ''PreferredPhases'' ''number'',
       validateRange env clients ''clients'' ''PriorityLevel'' (Fin 1) (Fin 5),
       validateMinValue env tasks ''tasks'' ''Duration'' (Fin 1),
       validateMinValue env tasks ''tasks'' ''MaxConcurrent'' (Fin 1),
       validateMinValue env workers ''workers'' ''MaxLoadPerPhase'' (Fin 1),
       validateJSON env clients ''clients'' ''AttributesJSON'',
       validateJSON env workers ''workers'' ''AttributesJSON'',
       validateJSON env tasks ''tasks'' ''AttributesJSON'',
       validateTaskReferences env clients tasks,
       validateWorkerCapacity env workers,
       validateSkillCoverage env workers tasks ]"

fun run_rules :: "rule list \<Rightarrow> ValidationError list \<Rightarrow> exn + ValidationError list" where
  "run_rules [] errors = Inr errors"
| "run_rules (r # rs) errors =
     (case r errors of Inl e \<Rightarrow> Inl e | Inr errors' \<Rightarrow> run_rules rs errors')"

definition validate ::
  "builtins \<Rightarrow> row list \<Rightarrow> row list \<Rightarrow> row list \<Rightarrow> exn + ValidationError list" where
  "validate env clients workers tasks = run_rules (rule_calls env clients workers tasks) []"

record response =
  body_errors :: "ValidationError list"
  status :: nat

definition POST :: "builtins \<Rightarrow> row list \<Rightarrow> row list \<Rightarrow> row list \<Rightarrow> response" where
  "POST env clients workers tasks =
     (case validate env clients workers tasks of
        Inr errors \<Rightarrow> \<lparr> body_errors = errors, status = 200 \<rparr>
      | Inl e \<Rightarrow> \<lparr> body_errors = [], status = 500 \<rparr>)"

section \<open>The structured-output mediator\<close>

subsection \<open>Texts as UTF-16 code units\<close>

text \<open>
  The cleaning of a provider's response classifies characters as white space and as line
  terminators, and some of these lie beyond U+00FF; so the texts the mediator handles are
  lists of UTF-16 code units, as the language's strings are. \<open>ascii\<close> embeds a literal.
\<close>

type_synonym jsstring = "16 word list"

definition ascii :: "string \<Rightarrow> jsstring" where
  "ascii s = map (\<lambda>c. of_nat (of_char c)) s"

text \<open>The line terminators: LF, CR, U+2028 and U+2029.\<close>

definition is_line_terminator :: "16 word \<Rightarrow> bool" where
  "is_line_terminator c \<longleftrightarrow> c = 0x0A \<or> c = 0x0D \<or> c = 0x2028 \<or> c = 0x2029"

text \<open>What \<open>trim\<close> strips and the class \<open>\s\<close> matches: white space and line terminators.\<close>

definition is_white_space :: "16 word \<Rightarrow> bool" where
  "is_white_space c \<longleftrightarrow>
     c = 0x09 \<or> c = 0x0A \<or> c = 0x0B \<or> c = 0x0C \<or> c = 0x0D \<or> c = 0x20 \<or> c = 0xA0 \<or>
     c = 0x1680 \<or> (0x2000 \<le> c \<and> c \<le> 0x200A) \<or> c = 0x2028 \<or> c = 0x2029 \<or>
     c = 0x202F \<or> c = 0x205F \<or> c = 0x3000 \<or> c = 0xFEFF"

definition trim :: "jsstring \<Rightarrow> jsstring" where
  "trim s = rev (dropWhile is_white_space (rev (dropWhile is_white_space s)))"

text \<open>\<open>s.indexOf(c)\<close> and \<open>s.lastIndexOf(c)\<close> for a one-character pattern: -1 when absent.\<close>

fun indexOf :: "jsstring \<Rightarrow> 16 word \<Rightarrow> int" where
  "indexOf [] c = -1"
| "indexOf (x # xs) c =
     (if x = c then 0 else (let i = indexOf xs c in if i = -1 then -1 else i + 1))"

definition lastIndexOf :: "jsstring \<Rightarrow> 16 word \<Rightarrow> int" where
  "lastIndexOf s c = (let i = indexOf (rev s) c in if i = -1 then -1 else int (length s) - 1 - i)"

subsection \<open>The three replacements\<close>

text \<open>
  \<open>s.replace(/^P\s*/gm, '')\<close> for a literal, non-empty \<open>P\<close>: wherever \<open>P\<close> stands at the
  start of the text or just after a line terminator, it is removed together with the white
  space after it; the search goes on after the removed part, where a line starts again when
  the last removed character was a line terminator. \<open>bol\<close> tells whether the position is
  the start of a line.
\<close>

function strip_at_line_start :: "jsstring \<Rightarrow> bool \<Rightarrow> jsstring \<Rightarrow> jsstring" where
  "strip_at_line_start pat bol [] = []"
| "strip_at_line_start pat bol (c # cs) =
     (if pat \<noteq> [] \<and> bol \<and> prefix pat (c # cs) then
        (let after = drop (length pat) (c # cs);
             matched = pat @ takeWhile is_white_space after
         in strip_at_line_start pat (is_line_terminator (last matched))
              (dropWhile is_white_space after))
      else c # strip_at_line_start pat (is_line_terminator c) cs)"
  by pat_completeness auto
termination
proof (relation "measure (\<lambda>(pat, bol, s). length s)")
  show "wf (measure (\<lambda>(pat, bol, s). length s))" by simp
next
  fix pat :: jsstring and bol c cs after matched
  assume a: "pat \<noteq> [] \<and> bol \<and> prefix pat (c # cs)" and b: "after = drop (length pat) (c # cs)"
  have "length (dropWhile is_white_space after) \<le> length after"
    by (rule length_dropWhile_le)
  moreover have "length after < length (c # cs)"
    using a b by (cases pat) auto
  ultimately show "((pat, is_line_terminator (last matched), dropWhile is_white_space after),
                    (pat, bol, c # cs)) \<in> measure (\<lambda>(pat, bol, s). length s)"
    by simp
next
  fix pat :: jsstring and bol c cs
  show "((pat, is_line_terminator c, cs), (pat, bol, c # cs)) \<in> measure (\<lambda>(pat, bol, s). length s)"
    by simp
qed

text \<open>
  \<open>s.replace(/\s*```$/gm, '')\<close>: a run of white space followed by three backticks that
  stand at the end of the text or just before a line terminator is removed. The class
  \<open>\s\<close> and the backtick are disjoint, so a match at a position takes the whole run of
  white space there.
\<close>

definition fence :: jsstring where
  "fence = [0x60, 0x60, 0x60]"

function strip_fence_at_line_end :: "jsstring \<Rightarrow> jsstring" where
  "strip_fence_at_line_end [] = []"
| "strip_fence_at_line_end (c # cs) =
     (let rest = dropWhile is_white_space (c # cs) in
      if prefix fence rest \<and> (drop 3 rest = [] \<or> is_line_terminator (hd (drop 3 rest)))
      then strip_fence_at_line_end (drop 3 rest)
      else c # strip_fence_at_line_end cs)"
  by pat_completeness auto
termination
proof (relation "measure length")
  show "wf (measure length)" by simp
next
  fix c :: "16 word" and cs rest
  assume a: "rest = dropWhile is_white_space (c # cs)"
    and b: "prefix fence rest \<and> (drop 3 rest = [] \<or> is_line_terminator (hd (drop 3 rest)))"
  have "length rest \<le> length (c # cs)"
    unfolding a by (rule length_dropWhile_le)
  moreover have "3 \<le> length rest"
    using b prefix_length_le [of fence rest] by (simp add: fence_def)
  ultimately show "(drop 3 rest, c # cs) \<in> measure length"
    by simp
next
  fix c :: "16 word" and cs rest
  show "(cs, c # cs) \<in> measure length" by simp
qed

text \<open>
  The cleaning of a response in \<open>OllamaClient.generateStructuredOutput\<close>: trim, cut before
  the first \<open>{\<close> when it is not at position 0, cut after the last \<open>}\<close>, then the three
  replacements.
\<close>

definition cleanResponse :: "jsstring \<Rightarrow> jsstring" where
  "cleanResponse response =
     (let jsonStr = trim response;
          firstBrace = indexOf jsonStr 0x7B;
          jsonStr = (if firstBrace > 0 then drop (nat firstBrace) jsonStr else jsonStr);
          lastBrace = lastIndexOf jsonStr 0x7D;
          jsonStr = (if lastBrace \<noteq> -1 then take (nat (lastBrace + 1)) jsonStr else jsonStr)
      in strip_fence_at_line_end
           (strip_at_line_start fence True
              (strip_at_line_start (ascii ''```json'') True jsonStr)))"


subsection \<open>Providers, errors and runs\<close>

text \<open>
  An error value carries its message. A backend is given by the outcome of each successive
  call of its generate operation (call 0, call 1, ...): a thrown error or the response text.
  \<open>JSON.parse\<close> and the schema's \<open>parse\<close> are parameters; so is the sequence of values
  that \<open>Math.random()\<close> returns. A run of the mediator records its outcome (the error it
  throws or the value it returns), the number of calls it made to the backend, and the
  delays it slept, in milliseconds (the doubles passed to \<open>sleep\<close>, as rationals).
\<close>

datatype jserror = Error (err_message: jsstring)

type_synonym provider = "nat \<Rightarrow> jserror + jsstring"

record 'a run =
  outcome :: "jserror + 'a"
  calls :: nat
  sleeps :: "rat list"

text \<open>\<open>s.includes(pat)\<close>.\<close>

fun includes_str :: "jsstring \<Rightarrow> jsstring \<Rightarrow> bool" where
  "includes_str [] pat = (pat = [])"
| "includes_str (c # cs) pat = (prefix pat (c # cs) \<or> includes_str cs pat)"

subsection \<open>The local inference backend (ollama.ts)\<close>

definition maxAttempts :: nat where
  "maxAttempts = 3"

text \<open>The body of the \<open>try\<close> block of one attempt.\<close>

definition ollama_attempt ::
  "(jsstring \<Rightarrow> jserror + 'j) \<Rightarrow> ('j \<Rightarrow> jserror + 'a) \<Rightarrow> provider \<Rightarrow> nat \<Rightarrow> jserror + 'a" where
  "ollama_attempt parse schema generateText ncalls =
     bindE (generateText ncalls) (\<lambda>response.
       bindE (parse (cleanResponse response)) schema)"

function ollama_loop ::
  "(jsstring \<Rightarrow> jserror + 'j) \<Rightarrow> ('j \<Rightarrow> jserror + 'a) \<Rightarrow> provider \<Rightarrow>
     nat \<Rightarrow> jserror option \<Rightarrow> nat \<Rightarrow> rat list \<Rightarrow> 'a run" where
  "ollama_loop parse schema generateText attempt lastError ncalls slept =
     (if attempt \<le> maxAttempts then
        (case ollama_attempt parse schema generateText ncalls of
           Inr result \<Rightarrow> \<lparr> outcome = Inr result, calls = Suc ncalls, sleeps = slept \<rparr>
         | Inl error \<Rightarrow>
             ollama_loop parse schema generateText (attempt + 1) (Some error) (Suc ncalls)
               (if attempt < maxAttempts then slept @ [1000] else slept))
      else
        \<lparr> outcome = Inl (case lastError of
                           Some e \<Rightarrow> e
                         | None \<Rightarrow> Error (ascii ''Failed to generate valid structured output'')),
          calls = ncalls, sleeps = slept \<rparr>)"
  by pat_completeness auto
termination
  by (relation "measure (\<lambda>(parse, schema, generateText, attempt, lastError, ncalls, slept).
                          Suc maxAttempts - attempt)") auto

definition ollama_generateStructuredOutput ::
  "(jsstring \<Rightarrow> jserror + 'j) \<Rightarrow> ('j \<Rightarrow> jserror + 'a) \<Rightarrow> provider \<Rightarrow> 'a run" where
  "ollama_generateStructuredOutput parse schema generateText =
     ollama_loop parse schema generateText 1 None 0 []"

subsection \<open>The cloud backend with rate limits (gemini.ts)\<close>

definition maxRetries :: nat where
  "maxRetries = 5"

definition is_rate_limit :: "jserror \<Rightarrow> bool" where
  "is_rate_limit error \<longleftrightarrow>
     err_message error \<noteq> [] \<and> includes_str (err_message error) (ascii ''429 Too Many Requests'')"

text \<open>
  The delay is computed in IEEE double arithmetic: each constant and each product or sum is
  rounded to the nearest double, ties to even. A double is modelled by its rational value.
  \<open>ulp x\<close> is the spacing of the doubles in the binade of a positive \<open>x\<close>, and
  \<open>round_double\<close> rounds a rational to 53 significant bits. The exponent range is left
  unbounded: the values here are far from overflow, and a product \<open>Math.random() * 0.4\<close>
  small enough to be subnormal is absorbed by the sum with \<open>0.8\<close> however it is rounded.
\<close>

definition round_half_even :: "rat \<Rightarrow> int" where
  "round_half_even q =
     (let f = \<lfloor>q\<rfloor>; d = q - of_int f
      in if d < 1 / 2 then f else if 1 / 2 < d then f + 1 else if even f then f else f + 1)"

definition ulp :: "rat \<Rightarrow> rat" where
  "ulp x =
     (let (a, b) = quotient_of x;
          d = bitlen a - bitlen b;
          e = (if 2 powi d \<le> x then d else d - 1)
      in 2 powi (e - 52))"

definition round_double :: "rat \<Rightarrow> rat" where
  "round_double x =
     (if x = 0 then 0
      else if x < 0 then - (ulp (- x) * of_int (round_half_even (- x / ulp (- x))))
      else ulp x * of_int (round_half_even (x / ulp x)))"

text \<open>
  The delay after the \<open>retryCount\<close>-th rate-limit failure, for the value that
  \<open>Math.random()\<close> returned:
  \<open>Math.min(maxDelay, baseDelay * Math.pow(2, retryCount) * (0.8 + Math.random() * 0.4))\<close>.
  \<open>Math.pow(2, retryCount)\<close> is taken to be the power of two itself, which is a double.
\<close>

definition backoff :: "nat \<Rightarrow> rat \<Rightarrow> rat" where
  "backoff retryCount random =
     min 60000
       (round_double
          (round_double (1000 * round_double (2 ^ retryCount)) *
           round_double (round_double (8 / 10) + round_double (random * round_double (4 / 10)))))"

text \<open>The body of the outer \<open>try\<close> block: the call, and the parse in its inner \<open>try\<close>.\<close>

definition gemini_attempt ::
  "(jsstring \<Rightarrow> jserror + 'j) \<Rightarrow> ('j \<Rightarrow> jserror + 'a) \<Rightarrow> provider \<Rightarrow> nat \<Rightarrow> jserror + 'a" where
  "gemini_attempt parse schema generateContent ncalls =
     bindE (generateContent ncalls) (\<lambda>responseText.
       case bindE (parse responseText) schema of
         Inr v \<Rightarrow> Inr v
       | Inl parseError \<Rightarrow> Inl (Error (ascii ''Failed to parse structured output from AI'')))"

function gemini_loop ::
  "(jsstring \<Rightarrow> jserror + 'j) \<Rightarrow> ('j \<Rightarrow> jserror + 'a) \<Rightarrow> provider \<Rightarrow> (nat \<Rightarrow> rat) \<Rightarrow>
     nat \<Rightarrow> jserror option \<Rightarrow> nat \<Rightarrow> rat list \<Rightarrow> 'a run" where
  "gemini_loop parse schema generateContent random retryCount lastError ncalls slept =
     (if retryCount < maxRetries then
        (case gemini_attempt parse schema generateContent ncalls of
           Inr v \<Rightarrow> \<lparr> outcome = Inr v, calls = Suc ncalls, sleeps = slept \<rparr>
         | Inl error \<Rightarrow>
             if is_rate_limit error then
               gemini_loop parse schema generateContent random (retryCount + 1) (Some error)
                 (Suc ncalls) (slept @ [backoff (retryCount + 1) (random (length slept))])
             else \<lparr> outcome = Inl error, calls = Suc ncalls, sleeps = slept \<rparr>)
      else
        \<lparr> outcome = Inl (case lastError of
                           Some e \<Rightarrow> e
                         | None \<Rightarrow> Error (ascii ''Failed after maximum retry attempts'')),
          calls = ncalls, sleeps = slept \<rparr>)"
  by pat_completeness auto
termination
  by (relation "measure (\<lambda>(parse, schema, generateContent, random, retryCount, lastError, ncalls, slept).
                          maxRetries - retryCount)") auto

definition gemini_generateStructuredOutput ::
  "(jsstring \<Rightarrow> jserror + 'j) \<Rightarrow> ('j \<Rightarrow> jserror + 'a) \<Rightarrow> provider \<Rightarrow> (nat \<Rightarrow> rat) \<Rightarrow> 'a run" where
  "gemini_generateStructuredOutput parse schema generateContent random =
     gemini_loop parse schema generateContent random 0 None 0 []"

subsection \<open>The provider switch (ai-provider.ts)\<close>

datatype AIProvider = Gemini | Ollama | OpenAI

definition generateStructuredOutput ::
  "(jsstring \<Rightarrow> jserror + 'j) \<Rightarrow> ('j \<Rightarrow> jserror + 'a) \<Rightarrow> provider \<Rightarrow> (nat \<Rightarrow> rat) \<Rightarrow>
     AIProvider \<Rightarrow> 'a run" where
  "generateStructuredOutput parse schema generate random provider =
     (case provider of
        Ollama \<Rightarrow> ollama_generateStructuredOutput parse schema generate
      | Gemini \<Rightarrow> gemini_generateStructuredOutput parse schema generate random
      | OpenAI \<Rightarrow>
          \<lparr> outcome = bindE (generate 0) (\<lambda>response. bindE (parse response) schema),
            calls = 1, sleeps = [] \<rparr>)"

section \<open>Notions used in the statements\<close>

text \<open>
  The place of a reported error in the handler's sequence of rule calls, read from its
  type, entity and column; 20 when no call produces such an error.
\<close>

definition call_index :: "ValidationError \<Rightarrow> nat" where
  "call_index e =
     (let t = type' e; n = entityType e; c = columnName e in
      if t = ''missingColumns'' then
        (if n = ''clients'' then 0 else if n = ''workers'' then 1 else if n = ''tasks'' then 2 else 20)
      else if t = ''duplicateId'' then
        (if n = ''clients'' then 3 else if n = ''workers'' then 4 else if n = ''tasks'' then 5 else 20)
      else if t = ''malformedArray'' \<or> t = ''invalidArrayElements'' then
        (if n = ''workers'' \<and> c = ''AvailableSlots'' then 6
         else if n = ''workers'' \<and> c = ''Skills'' then 7
         else if n = ''tasks'' \<and> c = ''RequiredSkills'' then 8
         else if n = ''tasks'' \<and> c = ''PreferredPhases'' then 9 else 20)
      else if t = ''outOfRange'' then 10
      else if t = ''belowMinimum'' then
        (if c = ''Duration'' then 11 else if c = ''MaxConcurrent'' then 12
         else if c = ''MaxLoadPerPhase'' then 13 else 20)
      else if t = ''invalidJSON'' then
        (if n = ''clients'' then 14 else if n = ''workers'' then 15 else if n = ''tasks'' then 16 else 20)
      else if t = ''unknownReferences'' then 17
      else if t = ''overloadedWorker'' then 18
      else if t = ''uncoveredSkills'' then 19
      else 20)"

text \<open>The catalog rule (1 to 8) that reports errors of a given type; 0 for any other type.\<close>

definition catalog_rule :: "ValidationError \<Rightarrow> nat" where
  "catalog_rule e =
     (let t = type' e in
      if t = ''missingColumns'' then 1
      else if t = ''duplicateId'' then 2
      else if t = ''malformedArray'' \<or> t = ''invalidArrayElements'' then 3
      else if t = ''outOfRange'' \<or> t = ''belowMinimum'' then 4
      else if t = ''invalidJSON'' then 5
      else if t = ''unknownReferences'' then 6
      else if t = ''overloadedWorker'' then 7
      else if t = ''uncoveredSkills'' then 8
      else 0)"

text \<open>The errors of a list that one catalog rule, one rule call, or one error type accounts for.\<close>

definition errors_of_rule :: "nat \<Rightarrow> ValidationError list \<Rightarrow> ValidationError list" where
  "errors_of_rule k errors = filter (\<lambda>e. catalog_rule e = k) errors"

definition errors_of_call :: "nat \<Rightarrow> ValidationError list \<Rightarrow> ValidationError list" where
  "errors_of_call k errors = filter (\<lambda>e. call_index e = k) errors"

definition errors_of_type :: "string \<Rightarrow> ValidationError list \<Rightarrow> ValidationError list" where
  "errors_of_type t errors = filter (\<lambda>e. type' e = t) errors"

text \<open>
  The rows of a collection whose identifier is \<open>v\<close>, the rows at which a list reports a
  duplicate identifier for an entity, and the rows of a list of row indexes whose identifier
  is \<open>v\<close>.
\<close>

definition occurrences :: "row list \<Rightarrow> string \<Rightarrow> jsval \<Rightarrow> nat list" where
  "occurrences data idColumn v = filter (\<lambda>j. get_prop (data ! j) idColumn = v) [0..<length data]"

definition duplicate_rows :: "string \<Rightarrow> ValidationError list \<Rightarrow> nat list" where
  "duplicate_rows ent errors =
     map rowIndex (filter (\<lambda>e. type' e = ''duplicateId'' \<and> entityType e = ent) errors)"

definition rows_with :: "row list \<Rightarrow> string \<Rightarrow> jsval \<Rightarrow> nat list \<Rightarrow> nat list" where
  "rows_with data idColumn v js = filter (\<lambda>j. get_prop (data ! j) idColumn = v) js"

text \<open>
  The values whose conversion to a string does not throw: no object with an own property
  named \<open>toString\<close>, at any depth of arrays. A row is plain when all its values are such.
\<close>

fun stringifiable :: "jsval \<Rightarrow> bool" where
  "stringifiable (JArr vs) = (\<forall>v\<in>set vs. stringifiable v)"
| "stringifiable (JObj ps) = (''toString'' \<notin> set (map fst ps))"
| "stringifiable v = True"

definition plain_row :: "row \<Rightarrow> bool" where
  "plain_row r \<longleftrightarrow> (\<forall>v\<in>set (map snd r). stringifiable v)"

text \<open>
  Every run of three backticks in a text stands apart from the line boundaries: not at the
  start of a line (\<open>bol\<close> tells whether the text begins one) and not at the end of a line
  or of the text.
\<close>

fun fence_apart :: "bool \<Rightarrow> jsstring \<Rightarrow> bool" where
  "fence_apart bol [] = True"
| "fence_apart bol (c # cs) =
     ((prefix fence (c # cs) \<longrightarrow>
         \<not> bol \<and> drop 3 (c # cs) \<noteq> [] \<and> \<not> is_line_terminator (hd (drop 3 (c # cs)))) \<and>
      fence_apart (is_line_terminator c) cs)"

section \<open>Notions used in the proofs\<close>

text \<open>
  A rule call only pushes onto \<open>errors\<close>: its result on any list is the list followed
  by its result on the empty list.
\<close>

definition appends :: "rule \<Rightarrow> bool" where
  "appends r \<longleftrightarrow> (\<forall>errors. r errors = bindE (r []) (\<lambda>new. Inr (errors @ new)))"

text \<open>The elements of the \<open>j\<close>-th list of \<open>gs\<close> have key \<open>i + j\<close>.\<close>

definition keyed :: "('e \<Rightarrow> nat) \<Rightarrow> nat \<Rightarrow> 'e list list \<Rightarrow> bool" where
  "keyed key i gs \<longleftrightarrow> (\<forall>j<length gs. \<forall>e\<in>set (gs ! j). key e = i + j)"

text \<open>
  A rule call is tagged with \<open>Q\<close> when it only appends, and what it appends is in
  ascending row order and satisfies \<open>Q\<close>.
\<close>

definition tagged :: "(ValidationError \<Rightarrow> bool) \<Rightarrow> rule \<Rightarrow> bool" where
  "tagged Q r \<longleftrightarrow>
     appends r \<and> (\<forall>g. r [] = Inr g \<longrightarrow> sorted (map rowIndex g) \<and> (\<forall>e\<in>set g. Q e))"

text \<open>An error has one of the types \<open>ts\<close>, the entity \<open>ent\<close> and the column \<open>col\<close>.\<close>

definition tag :: "string set \<Rightarrow> string \<Rightarrow> string \<Rightarrow> ValidationError \<Rightarrow> bool" where
  "tag ts ent col e \<longleftrightarrow> type' e \<in> ts \<and> entityType e = ent \<and> columnName e = col"

text \<open>
  Row \<open>j\<close> repeats an identifier: its identifier is truthy, a primitive, and the
  identifier of an earlier row.
\<close>

definition repeats :: "row list \<Rightarrow> string \<Rightarrow> nat \<Rightarrow> bool" where
  "repeats data idColumn j \<longleftrightarrow>
     (let v = get_prop (data ! j) idColumn in
      truthy v \<and> is_primitive v \<and> (\<exists>k<j. get_prop (data ! k) idColumn = v))"

text \<open>
  The state of the uniqueness rule after the rows \<open>xs\<close>: the set holds the truthy
  identifiers seen, and the errors are those of the rows that repeat one.
\<close>

definition unique_inv :: "string \<Rightarrow> string \<Rightarrow> row list \<Rightarrow> unique_state \<Rightarrow> bool" where
  "unique_inv ent col xs st \<longleftrightarrow>
     set (ids st) = {v. truthy v \<and> v \<in> (\<lambda>r. get_prop r col) ` set xs} \<and>
     map rowIndex (errs st) = filter (repeats xs col) [0..<length xs] \<and>
     (\<forall>e\<in>set (errs st). tag {''duplicateId''} ent col e)"

text \<open>The calls of a list, from position \<open>i\<close> on, each report errors of their own position only.\<close>

fun tagged_from :: "nat \<Rightarrow> rule list \<Rightarrow> bool" where
  "tagged_from i [] = True"
| "tagged_from i (r # rs) = (tagged (\<lambda>e. call_index e = i) r \<and> tagged_from (Suc i) rs)"

text \<open>The catalog rule of each of the 20 calls.\<close>

definition rule_of_call :: "nat \<Rightarrow> nat" where
  "rule_of_call k =
     (if k < 3 then 1 else if k < 6 then 2 else if k < 10 then 3 else if k < 14 then 4
      else if k < 17 then 5 else if k < 18 then 6 else if k < 19 then 7 else 8)"

text \<open>A rule call is total when it returns a list on every list.\<close>

definition total :: "rule \<Rightarrow> bool" where
  "total r \<longleftrightarrow> (\<forall>errors. \<exists>out. r errors = Inr out)"

section \<open>Instances for evaluating examples\<close>

text \<open>
  One choice of the three library parameters, for evaluating the handler on examples. It is
  exact on the natural numbers and on strings of decimal digits, and accepts the text
  \<open>{}\<close> as JSON; the examples rely on nothing more.
\<close>

fun show_nat :: "nat \<Rightarrow> string" where
  "show_nat n =
     (if n < 10 then [char_of (48 + n)] else show_nat (n div 10) @ [char_of (48 + n mod 10)])"

fun read_nat :: "string \<Rightarrow> nat \<Rightarrow> nat option" where
  "read_nat [] acc = Some acc"
| "read_nat (c # cs) acc =
     (let d = (of_char c :: nat)
      in if 48 \<le> d \<and> d \<le> 57 then read_nat cs (10 * acc + (d - 48)) else None)"

definition sample_builtins :: builtins where
  "sample_builtins =
     \<lparr> number_to_string =
         (\<lambda>n. case n of
                 NaN \<Rightarrow> ''NaN'' | PosInf \<Rightarrow> ''Infinity'' | NegInf \<Rightarrow> ''-Infinity''
               | Fin q \<Rightarrow> if 0 \<le> q \<and> of_int \<lfloor>q\<rfloor> = q then show_nat (nat \<lfloor>q\<rfloor>) else ''?''),
       string_to_number =
         (\<lambda>s. case read_nat s 0 of None \<Rightarrow> NaN | Some n \<Rightarrow> Fin (of_nat n)),
       json_parses = (\<lambda>s. s = ''{}'') \<rparr>"

text \<open>
  A parser and a schema for evaluating examples: the parser accepts the text
  \<open>{"a":1}\<close> only, the schema accepts what the parser returns.
\<close>

definition sample_parse :: "jsstring \<Rightarrow> jserror + jsstring" where
  \<open>sample_parse text =
     (if text = ascii ''{"a":1}'' then Inr text else Inl (Error (ascii ''Unexpected token'')))\<close>

definition sample_schema :: "jsstring \<Rightarrow> jserror + jsstring" where
  "sample_schema v = Inr v"


definition refusing_backend :: provider where
  "refusing_backend k = Inl (Error (ascii ''connect ECONNREFUSED''))"





definition half_jitter :: "nat \<Rightarrow> rat" where
  "half_jitter k = 1 / 2"

section \<open>Properties\<close>

subsection \<open>Sequencing of rule calls and of rows\<close>

lemma bindE_Inl [simp]: "bindE (Inl e) f = Inl e"
  by (simp add: bindE_def)

lemma bindE_Inr [simp]: "bindE (Inr x) f = f x"
  by (simp add: bindE_def)

lemma bindE_eq_Inr: "bindE m f = Inr y \<longleftrightarrow> (\<exists>x. m = Inr x \<and> f x = Inr y)"
  by (cases m) simp_all

lemma appendsD: "appends r \<Longrightarrow> r errors = bindE (r []) (\<lambda>new. Inr (errors @ new))"
  unfolding appends_def by blast

lemma forEach_appends:
  assumes "\<forall>x\<in>set xs. \<forall>i. appends (f x i)"
  shows "forEach f xs i errors = bindE (forEach f xs i []) (\<lambda>new. Inr (errors @ new))"
  using assms
proof (induction xs arbitrary: i errors)
  case Nil
  show ?case by simp
next
  case (Cons x xs)
  have "appends (f x i)"
    using Cons.prems by simp
  then have step: "f x i errors = bindE (f x i []) (\<lambda>new. Inr (errors @ new))"
    by (rule appendsD)
  have tl: "\<forall>x\<in>set xs. \<forall>i. appends (f x i)"
    using Cons.prems by simp
  show ?case
  proof (cases "f x i []")
    case (Inl e)
    then show ?thesis using step by simp
  next
    case (Inr n)
    have a: "forEach f (x # xs) i errors = forEach f xs (Suc i) (errors @ n)"
      using step Inr by simp
    have b: "forEach f (x # xs) i [] = forEach f xs (Suc i) n"
      using Inr by simp
    show ?thesis
      unfolding a b
      by (subst Cons.IH [OF tl, of "Suc i" "errors @ n"], subst Cons.IH [OF tl, of "Suc i" n])
         (cases "forEach f xs (Suc i) []"; simp)
  qed
qed

lemma forEach_Inr_iff:
  assumes "\<forall>x\<in>set xs. \<forall>i. appends (f x i)"
  shows "forEach f xs i [] = Inr out \<longleftrightarrow>
         (\<exists>news. length news = length xs \<and>
                  (\<forall>j<length xs. f (xs ! j) (i + j) [] = Inr (news ! j)) \<and>
                  out = concat news)"
  using assms
proof (induction xs arbitrary: i out)
  case Nil
  show ?case by auto
next
  case (Cons x xs)
  have tl: "\<forall>x\<in>set xs. \<forall>i. appends (f x i)"
    using Cons.prems by simp
  show ?case
  proof (cases "f x i []")
    case (Inl e)
    have "\<not> (\<exists>news. length news = length (x # xs) \<and>
                  (\<forall>j<length (x # xs). f ((x # xs) ! j) (i + j) [] = Inr (news ! j)) \<and>
                  out = concat news)"
    proof
      assume "\<exists>news. length news = length (x # xs) \<and>
                  (\<forall>j<length (x # xs). f ((x # xs) ! j) (i + j) [] = Inr (news ! j)) \<and>
                  out = concat news"
      then obtain news where "\<forall>j<length (x # xs). f ((x # xs) ! j) (i + j) [] = Inr (news ! j)"
        by blast
      then have "f x i [] = Inr (news ! 0)" by fastforce
      then show False using Inl by simp
    qed
    then show ?thesis using Inl by simp
  next
    case (Inr n)
    have b: "forEach f (x # xs) i [] = bindE (forEach f xs (Suc i) []) (\<lambda>new. Inr (n @ new))"
      using Inr forEach_appends [OF tl, of "Suc i" n] by simp
    show ?thesis
    proof
      assume "forEach f (x # xs) i [] = Inr out"
      then obtain rest where r: "forEach f xs (Suc i) [] = Inr rest" "out = n @ rest"
        unfolding b by (auto simp: bindE_eq_Inr)
      from r(1) Cons.IH [OF tl, of "Suc i" rest] obtain news where
        n: "length news = length xs" "\<forall>j<length xs. f (xs ! j) (Suc i + j) [] = Inr (news ! j)"
           "rest = concat news" by blast
      have "\<forall>j<length (x # xs). f ((x # xs) ! j) (i + j) [] = Inr ((n # news) ! j)"
      proof (intro allI impI)
        fix j assume "j < length (x # xs)"
        then show "f ((x # xs) ! j) (i + j) [] = Inr ((n # news) ! j)"
          using Inr n(2) by (cases j) auto
      qed
      then show "\<exists>news. length news = length (x # xs) \<and>
                  (\<forall>j<length (x # xs). f ((x # xs) ! j) (i + j) [] = Inr (news ! j)) \<and>
                  out = concat news"
        using n(1,3) r(2) by (intro exI [of _ "n # news"]) simp
    next
      assume "\<exists>news. length news = length (x # xs) \<and>
                  (\<forall>j<length (x # xs). f ((x # xs) ! j) (i + j) [] = Inr (news ! j)) \<and>
                  out = concat news"
      then obtain news where
        n: "length news = length (x # xs)"
           "\<forall>j<length (x # xs). f ((x # xs) ! j) (i + j) [] = Inr (news ! j)"
           "out = concat news" by blast
      then obtain m ms where ms: "news = m # ms" by (cases news) auto
      have m: "m = n" using n(2) Inr ms by fastforce
      have "\<forall>j<length xs. f (xs ! j) (Suc i + j) [] = Inr (ms ! j)"
      proof (intro allI impI)
        fix j assume "j < length xs"
        then have "f ((x # xs) ! Suc j) (i + Suc j) [] = Inr (news ! Suc j)"
          using n(2) by (metis Suc_less_eq length_Cons)
        then show "f (xs ! j) (Suc i + j) [] = Inr (ms ! j)" using ms by simp
      qed
      then have "forEach f xs (Suc i) [] = Inr (concat ms)"
        using Cons.IH [OF tl, of "Suc i" "concat ms"] n(1) ms by auto
      then show "forEach f (x # xs) i [] = Inr out"
        unfolding b using n(3) ms m by simp
    qed
  qed
qed

lemma run_rules_forEach: "run_rules rs errors = forEach (\<lambda>r i. r) rs i errors"
  by (induction rs arbitrary: i errors) (auto split: sum.splits)

lemma run_rules_Inr_iff:
  assumes "\<forall>r\<in>set rs. appends r"
  shows "run_rules rs [] = Inr out \<longleftrightarrow>
         (\<exists>gs. length gs = length rs \<and> (\<forall>k<length rs. (rs ! k) [] = Inr (gs ! k)) \<and>
               out = concat gs)"
  using forEach_Inr_iff [of rs "\<lambda>r i. r" 0 out] assms
  by (simp add: run_rules_forEach [of rs "[]" 0])

lemma in_concatD: "e \<in> set (concat gs) \<Longrightarrow> \<exists>j<length gs. e \<in> set (gs ! j)"
proof -
  assume "e \<in> set (concat gs)"
  then obtain g where g: "g \<in> set gs" "e \<in> set g" by auto
  from g(1) obtain j where "j < length gs" "gs ! j = g" by (metis in_set_conv_nth)
  then show ?thesis using g(2) by blast
qed

lemma keyedD: "keyed key i gs \<Longrightarrow> j < length gs \<Longrightarrow> e \<in> set (gs ! j) \<Longrightarrow> key e = i + j"
  unfolding keyed_def by simp

lemma keyed_Cons: "keyed key i (g # gs) \<longleftrightarrow> (\<forall>e\<in>set g. key e = i) \<and> keyed key (Suc i) gs"
proof
  assume a: "keyed key i (g # gs)"
  have "\<forall>e\<in>set g. key e = i"
  proof
    fix e assume "e \<in> set g"
    then show "key e = i" using keyedD [OF a, of 0 e] by simp
  qed
  moreover have "keyed key (Suc i) gs"
    unfolding keyed_def
  proof (intro allI impI ballI)
    fix j e assume "j < length gs" "e \<in> set (gs ! j)"
    then show "key e = Suc i + j" using keyedD [OF a, of "Suc j" e] by simp
  qed
  ultimately show "(\<forall>e\<in>set g. key e = i) \<and> keyed key (Suc i) gs" ..
next
  assume a: "(\<forall>e\<in>set g. key e = i) \<and> keyed key (Suc i) gs"
  show "keyed key i (g # gs)"
    unfolding keyed_def
  proof (intro allI impI ballI)
    fix j e assume j: "j < length (g # gs)" "e \<in> set ((g # gs) ! j)"
    show "key e = i + j"
    proof (cases j)
      case 0
      then show ?thesis using a j by simp
    next
      case (Suc j')
      then show ?thesis using a j keyedD [of key "Suc i" gs j' e] by simp
    qed
  qed
qed

lemma keyed_later:
  assumes "keyed key i gs" "e \<in> set (concat gs)"
  shows "i \<le> key e"
proof -
  from in_concatD [OF assms(2)] obtain j where "j < length gs" "e \<in> set (gs ! j)"
    by blast
  then have "key e = i + j" using keyedD [OF assms(1)] by simp
  then show ?thesis by simp
qed

lemma sorted_const_keys: "\<forall>e\<in>set g. key e = (i::nat) \<Longrightarrow> sorted (map key g)"
  by (induction g) simp_all

lemma sorted_concat_keys: "keyed key i gs \<Longrightarrow> sorted (map key (concat gs))"
proof (induction gs arbitrary: i)
  case Nil
  show ?case by simp
next
  case (Cons g gs)
  from Cons.prems have hd: "\<forall>e\<in>set g. key e = i" and tl: "keyed key (Suc i) gs"
    unfolding keyed_Cons by simp_all
  have "sorted (map key g)" using hd by (rule sorted_const_keys)
  moreover have "sorted (map key (concat gs))" using tl by (rule Cons.IH)
  moreover have "\<forall>x\<in>set (map key g). \<forall>y\<in>set (map key (concat gs)). x \<le> y"
  proof (intro ballI)
    fix x y assume "x \<in> set (map key g)" "y \<in> set (map key (concat gs))"
    then obtain a b where ab: "a \<in> set g" "x = key a" "b \<in> set (concat gs)" "y = key b"
      by auto
    have "Suc i \<le> key b" using keyed_later [OF tl ab(3)] .
    then show "x \<le> y" using hd ab by simp
  qed
  ultimately have "sorted (map key g @ map key (concat gs))"
    unfolding sorted_append by blast
  then show ?case by simp
qed

lemma filter_concat_key:
  "keyed key i gs \<Longrightarrow> k < length gs \<Longrightarrow> filter (\<lambda>e. key e = i + k) (concat gs) = gs ! k"
proof (induction gs arbitrary: i k)
  case Nil
  then show ?case by simp
next
  case (Cons g gs)
  from Cons.prems(1) have hd: "\<forall>e\<in>set g. key e = i" and tl: "keyed key (Suc i) gs"
    unfolding keyed_Cons by simp_all
  have later: "\<And>e. e \<in> set (concat gs) \<Longrightarrow> key e \<noteq> i"
    using keyed_later [OF tl] by fastforce
  show ?case
  proof (cases k)
    case 0
    have "filter (\<lambda>e. key e = i) g = g" using hd by (simp add: filter_id_conv)
    moreover have "filter (\<lambda>e. key e = i) (concat gs) = []"
      unfolding filter_empty_conv using later by blast
    ultimately show ?thesis using 0 by simp
  next
    case (Suc k')
    have "filter (\<lambda>e. key e = i + k) g = []"
      unfolding filter_empty_conv using hd Suc by simp
    moreover have "filter (\<lambda>e. key e = Suc i + k') (concat gs) = gs ! k'"
      using Cons.IH [OF tl, of k'] Cons.prems(2) Suc by simp
    ultimately show ?thesis using Suc by simp
  qed
qed

subsection \<open>Every rule call only appends\<close>

lemma appendsI: "(\<And>errors. r errors = bindE (r []) (\<lambda>new. Inr (errors @ new))) \<Longrightarrow> appends r"
  unfolding appends_def by blast

lemma appends_Inr_const: "appends (\<lambda>errors. Inr errors)"
  by (rule appendsI) simp

lemma appends_forEach:
  "(\<And>x i. appends (f x i)) \<Longrightarrow> appends (forEach f xs i)"
  by (rule appendsI) (rule forEach_appends, simp)

lemma arrayFieldsRow_appends: "appends (arrayFieldsRow env ent fld ty r i)"
  by (rule appendsI) (simp add: arrayFieldsRow_def Let_def bindE_def split: jsval.splits sum.splits)

lemma rangeRow_appends: "appends (rangeRow env ent fld lo hi r i)"
  by (rule appendsI) (simp add: rangeRow_def Let_def bindE_def split: jsval.splits sum.splits)

lemma minValueRow_appends: "appends (minValueRow env ent fld lo r i)"
  by (rule appendsI) (simp add: minValueRow_def Let_def bindE_def split: jsval.splits sum.splits)

lemma jsonRow_appends: "appends (jsonRow env ent fld r i)"
  by (rule appendsI) (simp add: jsonRow_def Let_def bindE_def split: jsval.splits sum.splits)

lemma taskReferencesRow_appends: "appends (taskReferencesRow env tids r i)"
  by (rule appendsI) (simp add: taskReferencesRow_def Let_def bindE_def split: jsval.splits sum.splits)

lemma workerCapacityRow_appends: "appends (workerCapacityRow env r i)"
  by (rule appendsI) (simp add: workerCapacityRow_def Let_def bindE_def split: jsval.splits sum.splits)

lemma skillCoverageRow_appends: "appends (skillCoverageRow env sk r i)"
  by (rule appendsI) (simp add: skillCoverageRow_def Let_def bindE_def split: jsval.splits sum.splits)

lemma validateRequiredColumns_appends: "appends (validateRequiredColumns data ent req)"
  by (rule appendsI) (simp add: validateRequiredColumns_def Let_def split: list.splits)

lemma validateArrayFields_appends: "appends (validateArrayFields env data ent fld ty)"
  unfolding validateArrayFields_def
  by (cases "data = []") (simp_all add: appends_Inr_const appends_forEach arrayFieldsRow_appends)

lemma validateRange_appends: "appends (validateRange env data ent fld lo hi)"
  unfolding validateRange_def
  by (cases "data = []") (simp_all add: appends_Inr_const appends_forEach rangeRow_appends)

lemma validateMinValue_appends: "appends (validateMinValue env data ent fld lo)"
  unfolding validateMinValue_def
  by (cases "data = []") (simp_all add: appends_Inr_const appends_forEach minValueRow_appends)

lemma validateJSON_appends: "appends (validateJSON env data ent fld)"
  unfolding validateJSON_def
  by (cases "data = []") (simp_all add: appends_Inr_const appends_forEach jsonRow_appends)

lemma validateTaskReferences_appends: "appends (validateTaskReferences env clients tasks)"
  unfolding validateTaskReferences_def Let_def
  by (cases "clients = [] \<or> tasks = []")
     (simp_all add: appends_Inr_const appends_forEach taskReferencesRow_appends)

lemma validateWorkerCapacity_appends: "appends (validateWorkerCapacity env workers)"
  unfolding validateWorkerCapacity_def
  by (cases "workers = []") (simp_all add: appends_Inr_const appends_forEach workerCapacityRow_appends)

lemma validateSkillCoverage_appends: "appends (validateSkillCoverage env workers tasks)"
  unfolding validateSkillCoverage_def
  by (cases "workers = [] \<or> tasks = []")
     (simp_all add: appends_Inr_const appends_forEach skillCoverageRow_appends)

subsection \<open>What each rule call reports\<close>

lemma forEach_rows:
  assumes app: "\<And>x i. appends (f x i)"
    and row: "\<And>x i new. f x i [] = Inr new \<Longrightarrow> \<forall>e\<in>set new. rowIndex e = i \<and> Q e"
    and run: "forEach f xs i [] = Inr out"
  shows "sorted (map rowIndex out) \<and> (\<forall>e\<in>set out. Q e)"
proof -
  have app': "\<forall>x\<in>set xs. \<forall>i. appends (f x i)" using app by simp
  obtain news where n: "length news = length xs"
      "\<forall>j<length xs. f (xs ! j) (i + j) [] = Inr (news ! j)" "out = concat news"
    using run forEach_Inr_iff [OF app', of i out] by blast
  have rows: "\<And>j e. j < length news \<Longrightarrow> e \<in> set (news ! j) \<Longrightarrow> rowIndex e = i + j \<and> Q e"
  proof -
    fix j e assume j: "j < length news" "e \<in> set (news ! j)"
    then have "f (xs ! j) (i + j) [] = Inr (news ! j)" using n(1,2) by simp
    from row [OF this] j(2) show "rowIndex e = i + j \<and> Q e" by blast
  qed
  have "keyed rowIndex i news"
    unfolding keyed_def using rows by blast
  then have "sorted (map rowIndex (concat news))"
    by (rule sorted_concat_keys)
  moreover have "\<forall>e\<in>set (concat news). Q e"
  proof
    fix e assume "e \<in> set (concat news)"
    from in_concatD [OF this] obtain j where "j < length news" "e \<in> set (news ! j)" by blast
    then show "Q e" using rows by blast
  qed
  ultimately show ?thesis using n(3) by simp
qed

lemma tagged_forEach:
  assumes "\<And>x i. appends (f x i)"
    and "\<And>x i new. f x i [] = Inr new \<Longrightarrow> \<forall>e\<in>set new. rowIndex e = i \<and> Q e"
  shows "tagged Q (forEach f xs 0)"
proof -
  have "appends (forEach f xs 0)"
    using assms(1) by (rule appends_forEach)
  moreover have "\<And>g. forEach f xs 0 [] = Inr g \<Longrightarrow> sorted (map rowIndex g) \<and> (\<forall>e\<in>set g. Q e)"
    using assms by (rule forEach_rows)
  ultimately show ?thesis unfolding tagged_def by blast
qed

lemma tagged_skip: "tagged Q (\<lambda>errors. Inr errors)"
  unfolding tagged_def using appends_Inr_const by simp

lemma arrayFieldsRow_tag:
  "arrayFieldsRow env ent fld ty r i [] = Inr new \<Longrightarrow>
   \<forall>e\<in>set new. rowIndex e = i \<and> tag {''malformedArray'', ''invalidArrayElements''} ent fld e"
  by (auto simp: arrayFieldsRow_def tag_def Let_def bindE_def split: if_splits jsval.splits sum.splits)

lemma rangeRow_tag:
  "rangeRow env ent fld lo hi r i [] = Inr new \<Longrightarrow>
   \<forall>e\<in>set new. rowIndex e = i \<and> tag {''outOfRange''} ent fld e"
  by (auto simp: rangeRow_def tag_def Let_def bindE_def split: if_splits jsval.splits sum.splits)

lemma minValueRow_tag:
  "minValueRow env ent fld lo r i [] = Inr new \<Longrightarrow>
   \<forall>e\<in>set new. rowIndex e = i \<and> tag {''belowMinimum''} ent fld e"
  by (auto simp: minValueRow_def tag_def Let_def bindE_def split: if_splits jsval.splits sum.splits)

lemma jsonRow_tag:
  "jsonRow env ent fld r i [] = Inr new \<Longrightarrow>
   \<forall>e\<in>set new. rowIndex e = i \<and> tag {''invalidJSON''} ent fld e"
  by (auto simp: jsonRow_def tag_def Let_def bindE_def split: if_splits jsval.splits sum.splits)

lemma taskReferencesRow_tag:
  "taskReferencesRow env tids r i [] = Inr new \<Longrightarrow>
   \<forall>e\<in>set new. rowIndex e = i \<and> tag {''unknownReferences''} ''clients'' ''RequestedTaskIDs'' e"
  by (auto simp: taskReferencesRow_def tag_def Let_def bindE_def split: if_splits jsval.splits sum.splits)

lemma workerCapacityRow_tag:
  "workerCapacityRow env r i [] = Inr new \<Longrightarrow>
   \<forall>e\<in>set new. rowIndex e = i \<and> tag {''overloadedWorker''} ''workers'' ''MaxLoadPerPhase'' e"
  by (auto simp: workerCapacityRow_def tag_def Let_def bindE_def split: if_splits jsval.splits sum.splits)

lemma skillCoverageRow_tag:
  "skillCoverageRow env sk r i [] = Inr new \<Longrightarrow>
   \<forall>e\<in>set new. rowIndex e = i \<and> tag {''uncoveredSkills''} ''tasks'' ''RequiredSkills'' e"
  by (auto simp: skillCoverageRow_def tag_def Let_def bindE_def split: if_splits jsval.splits sum.splits)

lemma validateArrayFields_tagged:
  "tagged (tag {''malformedArray'', ''invalidArrayElements''} ent fld)
     (validateArrayFields env data ent fld ty)"
  unfolding validateArrayFields_def
  by (cases "data = []")
     (simp_all add: tagged_skip tagged_forEach [OF arrayFieldsRow_appends arrayFieldsRow_tag])

lemma validateRange_tagged:
  "tagged (tag {''outOfRange''} ent fld) (validateRange env data ent fld lo hi)"
  unfolding validateRange_def
  by (cases "data = []")
     (simp_all add: tagged_skip tagged_forEach [OF rangeRow_appends rangeRow_tag])

lemma validateMinValue_tagged:
  "tagged (tag {''belowMinimum''} ent fld) (validateMinValue env data ent fld lo)"
  unfolding validateMinValue_def
  by (cases "data = []")
     (simp_all add: tagged_skip tagged_forEach [OF minValueRow_appends minValueRow_tag])

lemma validateJSON_tagged:
  "tagged (tag {''invalidJSON''} ent fld) (validateJSON env data ent fld)"
  unfolding validateJSON_def
  by (cases "data = []")
     (simp_all add: tagged_skip tagged_forEach [OF jsonRow_appends jsonRow_tag])

lemma validateTaskReferences_tagged:
  "tagged (tag {''unknownReferences''} ''clients'' ''RequestedTaskIDs'')
     (validateTaskReferences env clients tasks)"
  unfolding validateTaskReferences_def Let_def
  by (cases "clients = [] \<or> tasks = []")
     (simp_all add: tagged_skip tagged_forEach [OF taskReferencesRow_appends taskReferencesRow_tag])

lemma validateWorkerCapacity_tagged:
  "tagged (tag {''overloadedWorker''} ''workers'' ''MaxLoadPerPhase'')
     (validateWorkerCapacity env workers)"
  unfolding validateWorkerCapacity_def
  by (cases "workers = []")
     (simp_all add: tagged_skip tagged_forEach [OF workerCapacityRow_appends workerCapacityRow_tag])

lemma validateSkillCoverage_tagged:
  "tagged (tag {''uncoveredSkills''} ''tasks'' ''RequiredSkills'')
     (validateSkillCoverage env workers tasks)"
  unfolding validateSkillCoverage_def
  by (cases "workers = [] \<or> tasks = []")
     (simp_all add: tagged_skip tagged_forEach [OF skillCoverageRow_appends skillCoverageRow_tag])

lemma validateRequiredColumns_tagged:
  "tagged (\<lambda>e. type' e = ''missingColumns'' \<and> entityType e = ent \<and> rowIndex e = 0)
     (validateRequiredColumns data ent req)"
  unfolding tagged_def
  by (auto simp: validateRequiredColumns_appends validateRequiredColumns_def Let_def
           split: list.splits if_splits)

subsection \<open>The uniqueness rule\<close>

lemma set_has_iff: "set_has s v \<longleftrightarrow> is_primitive v \<and> v \<in> set s"
  by (auto simp: set_has_def same_value_zero_def list_ex_iff)

lemma set_set_add: "set (set_add s v) = insert v (set s)"
  by (auto simp: set_add_def set_has_iff)

lemma toString_primitive: "is_primitive v \<Longrightarrow> \<exists>s. toString env v = Inr s"
  by (cases v) simp_all

lemma forEach_snoc:
  "forEach f (xs @ [x]) i s = bindE (forEach f xs i s) (f x (i + length xs))"
proof (induction xs arbitrary: i s)
  case Nil
  show ?case by (simp split: sum.splits)
next
  case (Cons y ys)
  show ?case
    by (cases "f y i s") (simp_all add: Cons.IH)
qed

lemma uniqueIdsRow_shift:
  "uniqueIdsRow env ent col r i (st \<lparr> errs := E @ errs st \<rparr>) =
   bindE (uniqueIdsRow env ent col r i st) (\<lambda>st'. Inr (st' \<lparr> errs := E @ errs st' \<rparr>))"
  by (simp add: uniqueIdsRow_def Let_def bindE_def split: sum.splits)

lemma uniqueIds_forEach_shift:
  "forEach (uniqueIdsRow env ent col) xs i (st \<lparr> errs := E @ errs st \<rparr>) =
   bindE (forEach (uniqueIdsRow env ent col) xs i st) (\<lambda>st'. Inr (st' \<lparr> errs := E @ errs st' \<rparr>))"
proof (induction xs arbitrary: i st)
  case Nil
  show ?case by simp
next
  case (Cons x xs)
  show ?case
    by (cases "uniqueIdsRow env ent col x i st") (simp_all add: uniqueIdsRow_shift Cons.IH)
qed

lemma validateUniqueIds_appends: "appends (validateUniqueIds env data ent col)"
proof (rule appendsI)
  fix errors
  define st0 :: unique_state where "st0 = \<lparr> ids = [], duplicates = [], errs = [] \<rparr>"
  have "\<lparr> ids = [], duplicates = [], errs = errors \<rparr> = st0 \<lparr> errs := errors @ errs st0 \<rparr>"
    by (simp add: st0_def)
  then have "forEach (uniqueIdsRow env ent col) data 0 \<lparr> ids = [], duplicates = [], errs = errors \<rparr>
     = bindE (forEach (uniqueIdsRow env ent col) data 0 st0)
         (\<lambda>st'. Inr (st' \<lparr> errs := errors @ errs st' \<rparr>))"
    using uniqueIds_forEach_shift [where st = st0 and E = errors] by simp
  then show "validateUniqueIds env data ent col errors =
        bindE (validateUniqueIds env data ent col []) (\<lambda>new. Inr (errors @ new))"
    unfolding validateUniqueIds_def st0_def
    by (cases "forEach (uniqueIdsRow env ent col) data 0 \<lparr> ids = [], duplicates = [], errs = [] \<rparr>")
       simp_all
qed

lemma repeats_append:
  assumes "j < length xs"
  shows "repeats (xs @ [x]) col j = repeats xs col j"
proof -
  have a: "(xs @ [x]) ! j = xs ! j"
    using assms by (simp add: nth_append)
  have "\<And>k. k < j \<Longrightarrow> (xs @ [x]) ! k = xs ! k"
    using assms by (simp add: nth_append)
  then have "(\<exists>k<j. get_prop ((xs @ [x]) ! k) col = get_prop (xs ! j) col) \<longleftrightarrow>
             (\<exists>k<j. get_prop (xs ! k) col = get_prop (xs ! j) col)"
    by (simp cong: conj_cong)
  then show ?thesis
    unfolding repeats_def Let_def a by simp
qed

lemma filter_repeats_snoc:
  "filter (repeats (xs @ [x]) col) [0..<Suc (length xs)] =
   filter (repeats xs col) [0..<length xs] @
     (if repeats (xs @ [x]) col (length xs) then [length xs] else [])"
proof -
  have "filter (repeats (xs @ [x]) col) [0..<length xs] = filter (repeats xs col) [0..<length xs]"
    by (rule filter_cong) (simp_all add: repeats_append)
  then show ?thesis by simp
qed

lemma repeats_last:
  "repeats (xs @ [x]) col (length xs) \<longleftrightarrow>
   truthy (get_prop x col) \<and> is_primitive (get_prop x col) \<and>
   get_prop x col \<in> (\<lambda>r. get_prop r col) ` set xs"
proof -
  have "(\<exists>k<length xs. get_prop ((xs @ [x]) ! k) col = get_prop x col) \<longleftrightarrow>
        get_prop x col \<in> (\<lambda>r. get_prop r col) ` set xs"
  proof
    assume "\<exists>k<length xs. get_prop ((xs @ [x]) ! k) col = get_prop x col"
    then obtain k where k: "k < length xs" "get_prop (xs ! k) col = get_prop x col"
      by (auto simp: nth_append)
    then have "xs ! k \<in> set xs" by simp
    then show "get_prop x col \<in> (\<lambda>r. get_prop r col) ` set xs"
      using k(2) by (metis image_eqI)
  next
    assume "get_prop x col \<in> (\<lambda>r. get_prop r col) ` set xs"
    then obtain r where r: "r \<in> set xs" "get_prop r col = get_prop x col" by auto
    then obtain k where "k < length xs" "xs ! k = r" by (metis in_set_conv_nth)
    then show "\<exists>k<length xs. get_prop ((xs @ [x]) ! k) col = get_prop x col"
      using r(2) by (auto simp: nth_append)
  qed
  then show ?thesis by (simp add: repeats_def Let_def)
qed

lemma uniqueIds_forEach_inv:
  "\<exists>st. forEach (uniqueIdsRow env ent col) xs 0 \<lparr> ids = [], duplicates = [], errs = [] \<rparr> = Inr st
        \<and> unique_inv ent col xs st"
proof (induction xs rule: rev_induct)
  case Nil
  show ?case by (simp add: unique_inv_def)
next
  case (snoc x xs)
  then obtain st where st:
    "forEach (uniqueIdsRow env ent col) xs 0 \<lparr> ids = [], duplicates = [], errs = [] \<rparr> = Inr st"
    "unique_inv ent col xs st" by blast
  let ?v = "get_prop x col"
  have run: "forEach (uniqueIdsRow env ent col) (xs @ [x]) 0 \<lparr> ids = [], duplicates = [], errs = [] \<rparr>
             = uniqueIdsRow env ent col x (length xs) st"
    using st(1) by (simp add: forEach_snoc)
  from st(2) have
    i1: "set (ids st) = {v. truthy v \<and> v \<in> (\<lambda>r. get_prop r col) ` set xs}" and
    i2: "map rowIndex (errs st) = filter (repeats xs col) [0..<length xs]" and
    i3: "\<forall>e\<in>set (errs st). tag {''duplicateId''} ent col e"
    unfolding unique_inv_def by simp_all
  show ?case
  proof (cases "truthy ?v")
    case False
    have "uniqueIdsRow env ent col x (length xs) st = Inr st"
      using False by (simp add: uniqueIdsRow_def)
    moreover have "unique_inv ent col (xs @ [x]) st"
      unfolding unique_inv_def filter_repeats_snoc length_append_singleton repeats_last
      using False i1 i2 i3 by auto
    ultimately show ?thesis using run by simp
  next
    case True
    show ?thesis
    proof (cases "set_has (ids st) ?v")
      case has: True
      then have prim: "is_primitive ?v" and mem: "?v \<in> set (ids st)"
        by (simp_all add: set_has_iff)
      obtain shown where shown: "toString env ?v = Inr shown"
        using toString_primitive [OF prim] by blast
      define e where "e = \<lparr> id' = ''duplicate-id-'' @ ent @ ''-'' @ index_str env (length xs),
                           type' = ''duplicateId'',
                           message = ''Duplicate '' @ col @ '': '' @ shown,
                           severity = SevError,
                           entityType = ent,
                           rowIndex = length xs,
                           columnName = col,
                           suggestions = [''Change '' @ col @ '' to a unique value''] \<rparr>"
      define st' where "st' = st \<lparr> duplicates := set_add (duplicates st) ?v, errs := errs st @ [e] \<rparr>"
      have "uniqueIdsRow env ent col x (length xs) st = Inr st'"
        using True has shown by (simp add: uniqueIdsRow_def st'_def e_def)
      moreover have "unique_inv ent col (xs @ [x]) st'"
        unfolding unique_inv_def filter_repeats_snoc length_append_singleton repeats_last
        using True prim mem i1 i2 i3 by (auto simp: st'_def e_def tag_def)
      ultimately show ?thesis using run by simp
    next
      case hasnt: False
      define st' where "st' = st \<lparr> ids := set_add (ids st) ?v \<rparr>"
      have "uniqueIdsRow env ent col x (length xs) st = Inr st'"
        using True hasnt by (simp add: uniqueIdsRow_def st'_def)
      moreover have "unique_inv ent col (xs @ [x]) st'"
        unfolding unique_inv_def filter_repeats_snoc length_append_singleton repeats_last
        using True hasnt i1 i2 i3 by (auto simp: st'_def set_set_add set_has_iff)
      ultimately show ?thesis using run by simp
    qed
  qed
qed

lemma validateUniqueIds_result:
  "\<exists>new. validateUniqueIds env data ent col [] = Inr new \<and>
         map rowIndex new = filter (repeats data col) [0..<length data] \<and>
         (\<forall>e\<in>set new. tag {''duplicateId''} ent col e)"
proof (cases "data = []")
  case True
  then show ?thesis by (simp add: validateUniqueIds_def)
next
  case False
  obtain st where
    "forEach (uniqueIdsRow env ent col) data 0 \<lparr> ids = [], duplicates = [], errs = [] \<rparr> = Inr st"
    "unique_inv ent col data st"
    using uniqueIds_forEach_inv by blast
  then show ?thesis
    using False by (simp add: validateUniqueIds_def unique_inv_def)
qed

lemma validateUniqueIds_tagged:
  "tagged (tag {''duplicateId''} ent col) (validateUniqueIds env data ent col)"
proof -
  obtain new where new: "validateUniqueIds env data ent col [] = Inr new"
    "map rowIndex new = filter (repeats data col) [0..<length data]"
    "\<forall>e\<in>set new. tag {''duplicateId''} ent col e"
    using validateUniqueIds_result by blast
  have "sorted (filter (repeats data col) [0..<length data])"
    by (rule sorted_wrt_filter) simp
  then show ?thesis
    unfolding tagged_def using new validateUniqueIds_appends by simp
qed

subsection \<open>The twenty calls of the handler\<close>

lemma tagged_weaken: "tagged Q r \<Longrightarrow> (\<And>e. Q e \<Longrightarrow> Q' e) \<Longrightarrow> tagged Q' r"
  unfolding tagged_def by blast

lemma tagged_from_nth:
  "tagged_from i rs \<Longrightarrow> k < length rs \<Longrightarrow> tagged (\<lambda>e. call_index e = i + k) (rs ! k)"
proof (induction rs arbitrary: i k)
  case Nil
  then show ?case by simp
next
  case (Cons r rs)
  show ?case
  proof (cases k)
    case 0
    then show ?thesis using Cons.prems by simp
  next
    case (Suc k')
    then have "tagged (\<lambda>e. call_index e = Suc i + k') (rs ! k')"
      using Cons.IH [of "Suc i" k'] Cons.prems by simp
    then show ?thesis using Suc by simp
  qed
qed

lemma call_missing:
  "type' e = ''missingColumns'' \<and> entityType e = ent \<and> rowIndex e = 0 \<Longrightarrow>
   ent = ''clients'' \<and> k = 0 \<or> ent = ''workers'' \<and> k = 1 \<or> ent = ''tasks'' \<and> k = 2 \<Longrightarrow>
   call_index e = k"
  by (auto simp: call_index_def)

lemma call_duplicate:
  "tag {''duplicateId''} ent col e \<Longrightarrow>
   ent = ''clients'' \<and> k = 3 \<or> ent = ''workers'' \<and> k = 4 \<or> ent = ''tasks'' \<and> k = 5 \<Longrightarrow>
   call_index e = k"
  by (auto simp: call_index_def tag_def)

lemma call_array:
  "tag {''malformedArray'', ''invalidArrayElements''} ent col e \<Longrightarrow>
   ent = ''workers'' \<and> col = ''AvailableSlots'' \<and> k = 6 \<or>
   ent = ''workers'' \<and> col = ''Skills'' \<and> k = 7 \<or>
   ent = ''tasks'' \<and> col = ''RequiredSkills'' \<and> k = 8 \<or>
   ent = ''tasks'' \<and> col = ''PreferredPhases'' \<and> k = 9 \<Longrightarrow>
   call_index e = k"
  by (auto simp: call_index_def tag_def)

lemma call_range: "tag {''outOfRange''} ent col e \<Longrightarrow> call_index e = 10"
  by (auto simp: call_index_def tag_def)

lemma call_minimum:
  "tag {''belowMinimum''} ent col e \<Longrightarrow>
   col = ''Duration'' \<and> k = 11 \<or> col = ''MaxConcurrent'' \<and> k = 12 \<or>
   col = ''MaxLoadPerPhase'' \<and> k = 13 \<Longrightarrow>
   call_index e = k"
  by (auto simp: call_index_def tag_def)

lemma call_json:
  "tag {''invalidJSON''} ent col e \<Longrightarrow>
   ent = ''clients'' \<and> k = 14 \<or> ent = ''workers'' \<and> k = 15 \<or> ent = ''tasks'' \<and> k = 16 \<Longrightarrow>
   call_index e = k"
  by (auto simp: call_index_def tag_def)

lemma call_references: "tag {''unknownReferences''} ent col e \<Longrightarrow> call_index e = 17"
  by (auto simp: call_index_def tag_def)

lemma call_capacity: "tag {''overloadedWorker''} ent col e \<Longrightarrow> call_index e = 18"
  by (auto simp: call_index_def tag_def)

lemma call_coverage: "tag {''uncoveredSkills''} ent col e \<Longrightarrow> call_index e = 19"
  by (auto simp: call_index_def tag_def)

lemma rule_calls_tagged: "tagged_from 0 (rule_calls env clients workers tasks)"
proof -
  have n: "Suc 0 = 1" "Suc 1 = 2" "Suc 2 = 3" "Suc 3 = 4" "Suc 4 = 5" "Suc 5 = 6" "Suc 6 = 7"
    "Suc 7 = 8" "Suc 8 = 9" "Suc 9 = 10" "Suc 10 = 11" "Suc 11 = 12" "Suc 12 = 13" "Suc 13 = 14"
    "Suc 14 = 15" "Suc 15 = 16" "Suc 16 = 17" "Suc 17 = 18" "Suc 18 = 19"
    by simp_all
  show ?thesis
    unfolding rule_calls_def tagged_from.simps n
    by (intro conjI TrueI
          tagged_weaken [OF validateRequiredColumns_tagged call_missing]
          tagged_weaken [OF validateUniqueIds_tagged call_duplicate]
          tagged_weaken [OF validateArrayFields_tagged call_array]
          tagged_weaken [OF validateRange_tagged call_range]
          tagged_weaken [OF validateMinValue_tagged call_minimum]
          tagged_weaken [OF validateJSON_tagged call_json]
          tagged_weaken [OF validateTaskReferences_tagged call_references]
          tagged_weaken [OF validateWorkerCapacity_tagged call_capacity]
          tagged_weaken [OF validateSkillCoverage_tagged call_coverage]) simp_all
qed

lemma length_rule_calls: "length (rule_calls env clients workers tasks) = 20"
  by (simp add: rule_calls_def)

lemma rule_call_tagged:
  "k < 20 \<Longrightarrow> tagged (\<lambda>e. call_index e = k) (rule_calls env clients workers tasks ! k)"
  using tagged_from_nth [OF rule_calls_tagged, of k env clients workers tasks]
  by (simp add: length_rule_calls)

lemma validate_groups:
  assumes "validate env clients workers tasks = Inr out"
  shows "\<exists>gs. length gs = 20 \<and> out = concat gs \<and> keyed call_index 0 gs \<and>
              (\<forall>k<20. (rule_calls env clients workers tasks ! k) [] = Inr (gs ! k)) \<and>
              (\<forall>k<20. sorted (map rowIndex (gs ! k)))"
proof -
  let ?rs = "rule_calls env clients workers tasks"
  have app: "\<forall>r\<in>set ?rs. appends r"
  proof
    fix r assume "r \<in> set ?rs"
    then obtain k where "k < length ?rs" "?rs ! k = r" by (metis in_set_conv_nth)
    then show "appends r"
      using rule_call_tagged [of k env clients workers tasks]
      by (simp add: length_rule_calls tagged_def)
  qed
  from assms obtain gs where gs: "length gs = length ?rs"
      "\<forall>k<length ?rs. (?rs ! k) [] = Inr (gs ! k)" "out = concat gs"
    unfolding validate_def run_rules_Inr_iff [OF app] by blast
  have each: "\<And>k. k < 20 \<Longrightarrow> sorted (map rowIndex (gs ! k)) \<and> (\<forall>e\<in>set (gs ! k). call_index e = k)"
  proof -
    fix k :: nat assume k: "k < 20"
    then have "(?rs ! k) [] = Inr (gs ! k)" using gs(2) by (simp add: length_rule_calls)
    then show "sorted (map rowIndex (gs ! k)) \<and> (\<forall>e\<in>set (gs ! k). call_index e = k)"
      using rule_call_tagged [OF k, of env clients workers tasks] unfolding tagged_def by blast
  qed
  have "keyed call_index 0 gs"
    unfolding keyed_def using each gs(1) by (simp add: length_rule_calls)
  then show ?thesis
    using gs each by (intro exI [of _ gs]) (simp add: length_rule_calls)
qed

subsection \<open>The order of the returned list (C4)\<close>

lemma POST_cases:
  "(\<exists>errors. validate env clients workers tasks = Inr errors \<and>
      POST env clients workers tasks = \<lparr> body_errors = errors, status = 200 \<rparr>) \<or>
   (\<exists>e. validate env clients workers tasks = Inl e) \<and>
      POST env clients workers tasks = \<lparr> body_errors = [], status = 500 \<rparr>"
  by (cases "validate env clients workers tasks") (simp_all add: POST_def)

lemma POST_groups:
  "\<exists>gs. body_errors (POST env clients workers tasks) = concat gs \<and> keyed call_index 0 gs \<and>
        (length gs = 20 \<or> gs = []) \<and> (\<forall>k<length gs. sorted (map rowIndex (gs ! k)))"
proof (cases "validate env clients workers tasks")
  case (Inl e)
  then have "body_errors (POST env clients workers tasks) = concat []"
    by (simp add: POST_def)
  then show ?thesis
    by (intro exI [of _ "[]"]) (simp add: keyed_def)
next
  case (Inr out)
  from validate_groups [OF Inr] obtain gs where
    "length gs = 20" "out = concat gs" "keyed call_index 0 gs"
    "\<forall>k<20. sorted (map rowIndex (gs ! k))" by blast
  then show ?thesis
    using Inr by (intro exI [of _ gs]) (simp add: POST_def)
qed

lemma filter_concat_key_out:
  assumes "keyed key 0 gs" "length gs \<le> k"
  shows "filter (\<lambda>e. key e = k) (concat gs) = []"
proof -
  have "\<And>e. e \<in> set (concat gs) \<Longrightarrow> key e \<noteq> k"
  proof -
    fix e assume "e \<in> set (concat gs)"
    from in_concatD [OF this] obtain j where j: "j < length gs" "e \<in> set (gs ! j)" by blast
    then have "key e = j" using keyedD [OF assms(1)] by fastforce
    then show "key e \<noteq> k" using j(1) assms(2) by simp
  qed
  then show ?thesis unfolding filter_empty_conv by blast
qed

lemma sorted_map_mono:
  "sorted (map f xs) \<Longrightarrow> (\<And>a b. a \<le> b \<Longrightarrow> g a \<le> g b) \<Longrightarrow> sorted (map (\<lambda>x. g (f x)) xs)"
  by (induction xs) auto

lemma rule_of_call_mono: "a \<le> b \<Longrightarrow> rule_of_call a \<le> rule_of_call b"
  unfolding rule_of_call_def by (simp split: if_splits)

lemma catalog_rule_of_call:
  assumes "call_index e < 20"
  shows "catalog_rule e = rule_of_call (call_index e)"
proof -
  consider
    (t0) "type' e = ''missingColumns''" |
    (t1) "type' e = ''duplicateId''" |
    (t2) "type' e = ''malformedArray''" |
    (t3) "type' e = ''invalidArrayElements''" |
    (t4) "type' e = ''outOfRange''" |
    (t5) "type' e = ''belowMinimum''" |
    (t6) "type' e = ''invalidJSON''" |
    (t7) "type' e = ''unknownReferences''" |
    (t8) "type' e = ''overloadedWorker''" |
    (t9) "type' e = ''uncoveredSkills''" |
    (other) "type' e \<notin> {''missingColumns'', ''duplicateId'', ''malformedArray'', ''invalidArrayElements'', ''outOfRange'', ''belowMinimum'', ''invalidJSON'', ''unknownReferences'', ''overloadedWorker'', ''uncoveredSkills''}"
    by blast
  then show ?thesis
  proof cases
    case t0
    then show ?thesis
      using assms unfolding catalog_rule_def call_index_def rule_of_call_def Let_def
      by (simp split: if_splits)
  next
    case t1
    then show ?thesis
      using assms unfolding catalog_rule_def call_index_def rule_of_call_def Let_def
      by (simp split: if_splits)
  next
    case t2
    then show ?thesis
      using assms unfolding catalog_rule_def call_index_def rule_of_call_def Let_def
      by (simp split: if_splits)
  next
    case t3
    then show ?thesis
      using assms unfolding catalog_rule_def call_index_def rule_of_call_def Let_def
      by (simp split: if_splits)
  next
    case t4
    then show ?thesis
      using assms unfolding catalog_rule_def call_index_def rule_of_call_def Let_def
      by (simp split: if_splits)
  next
    case t5
    then show ?thesis
      using assms unfolding catalog_rule_def call_index_def rule_of_call_def Let_def
      by (simp split: if_splits)
  next
    case t6
    then show ?thesis
      using assms unfolding catalog_rule_def call_index_def rule_of_call_def Let_def
      by (simp split: if_splits)
  next
    case t7
    then show ?thesis
      using assms unfolding catalog_rule_def call_index_def rule_of_call_def Let_def
      by (simp split: if_splits)
  next
    case t8
    then show ?thesis
      using assms unfolding catalog_rule_def call_index_def rule_of_call_def Let_def
      by (simp split: if_splits)
  next
    case t9
    then show ?thesis
      using assms unfolding catalog_rule_def call_index_def rule_of_call_def Let_def
      by (simp split: if_splits)
  next
    case other
    then have "call_index e = 20"
      unfolding call_index_def Let_def by simp
    then show ?thesis using assms by simp
  qed
qed

text \<open>
  C4, as amended. In the returned list the errors of one rule call (one rule function
  applied to one entity and, where it takes one, to one field) are in ascending row order,
  and the groups of the twenty calls follow each other in the order of the calls in the
  handler; that order follows the catalog, so the list is also sorted by catalog rule.
  The list is a function of the request body and of nothing else.
\<close>

theorem errors_in_call_order:
  "sorted (map call_index (body_errors (POST env clients workers tasks))) \<and>
   sorted (map catalog_rule (body_errors (POST env clients workers tasks))) \<and>
   (\<forall>k. sorted (map rowIndex (errors_of_call k (body_errors (POST env clients workers tasks)))))"
proof -
  obtain gs where gs: "body_errors (POST env clients workers tasks) = concat gs"
    "keyed call_index 0 gs" "length gs = 20 \<or> gs = []"
    "\<forall>k<length gs. sorted (map rowIndex (gs ! k))"
    using POST_groups by blast
  have s1: "sorted (map call_index (concat gs))"
    using gs(2) by (rule sorted_concat_keys)
  have small: "\<And>e. e \<in> set (concat gs) \<Longrightarrow> call_index e < 20"
  proof -
    fix e assume "e \<in> set (concat gs)"
    from in_concatD [OF this] obtain j where j: "j < length gs" "e \<in> set (gs ! j)" by blast
    then have "call_index e = j" using keyedD [OF gs(2)] by fastforce
    then show "call_index e < 20" using j(1) gs(3) by auto
  qed
  have eq: "map catalog_rule (concat gs) = map (\<lambda>e. rule_of_call (call_index e)) (concat gs)"
    by (rule map_cong) (simp_all add: catalog_rule_of_call small)
  have s2: "sorted (map catalog_rule (concat gs))"
    unfolding eq by (rule sorted_map_mono [OF s1 rule_of_call_mono])
  have s3: "\<And>k. sorted (map rowIndex (filter (\<lambda>e. call_index e = k) (concat gs)))"
  proof -
    fix k
    show "sorted (map rowIndex (filter (\<lambda>e. call_index e = k) (concat gs)))"
    proof (cases "k < length gs")
      case True
      then show ?thesis
        using filter_concat_key [OF gs(2) True] gs(4) by simp
    next
      case False
      then show ?thesis
        using filter_concat_key_out [OF gs(2), of k] by simp
    qed
  qed
  show ?thesis
    unfolding gs(1) errors_of_call_def using s1 s2 s3 by blast
qed

theorem errors_in_call_order_witness:
  "sorted (map call_index (body_errors (POST sample_builtins []
     [[(''AvailableSlots'', JArr [JNum (Fin 1)]), (''Skills'', JStr ''x'')],
      [(''AvailableSlots'', JStr ''bad''), (''Skills'', JArr [JStr ''a''])]] []))) \<and>
   map rowIndex (errors_of_call 6 (body_errors (POST sample_builtins []
     [[(''AvailableSlots'', JArr [JNum (Fin 1)]), (''Skills'', JStr ''x'')],
      [(''AvailableSlots'', JStr ''bad''), (''Skills'', JArr [JStr ''a''])]] []))) = [1]"
proof -
  have "map rowIndex (errors_of_call 6 (body_errors (POST sample_builtins []
     [[(''AvailableSlots'', JArr [JNum (Fin 1)]), (''Skills'', JStr ''x'')],
      [(''AvailableSlots'', JStr ''bad''), (''Skills'', JArr [JStr ''a''])]] []))) = [1]"
    by code_simp
  then show ?thesis
    using errors_in_call_order [of sample_builtins "[]"
      "[[(''AvailableSlots'', JArr [JNum (Fin 1)]), (''Skills'', JStr ''x'')],
        [(''AvailableSlots'', JStr ''bad''), (''Skills'', JArr [JStr ''a''])]]" "[]"]
    by blast
qed

text \<open>
  C4 as stated fails: the array rule (catalog rule 3) is called on \<open>AvailableSlots\<close>
  and then on \<open>Skills\<close>, so an error of row 1 for the first field comes before an
  error of row 0 for the second.
\<close>

theorem same_rule_rows_out_of_order:
  "map rowIndex (errors_of_rule 3 (body_errors (POST sample_builtins []
     [[(''AvailableSlots'', JArr [JNum (Fin 1)]), (''Skills'', JStr ''x'')],
      [(''AvailableSlots'', JStr ''bad''), (''Skills'', JArr [JStr ''a''])]] []))) = [1, 0] \<and>
   \<not> sorted (map rowIndex (errors_of_rule 3 (body_errors (POST sample_builtins []
     [[(''AvailableSlots'', JArr [JNum (Fin 1)]), (''Skills'', JStr ''x'')],
      [(''AvailableSlots'', JStr ''bad''), (''Skills'', JArr [JStr ''a''])]] []))))"
proof -
  have "map rowIndex (errors_of_rule 3 (body_errors (POST sample_builtins []
     [[(''AvailableSlots'', JArr [JNum (Fin 1)]), (''Skills'', JStr ''x'')],
      [(''AvailableSlots'', JStr ''bad''), (''Skills'', JArr [JStr ''a''])]] []))) = [1, 0]"
    by code_simp
  then show ?thesis by simp
qed

subsection \<open>Required columns (C10)\<close>

lemma call_index_cases:
  "call_index e = 0 \<longleftrightarrow> type' e = ''missingColumns'' \<and> entityType e = ''clients''"
  "call_index e = 1 \<longleftrightarrow> type' e = ''missingColumns'' \<and> entityType e = ''workers''"
  "call_index e = 2 \<longleftrightarrow> type' e = ''missingColumns'' \<and> entityType e = ''tasks''"
  "call_index e = 3 \<longleftrightarrow> type' e = ''duplicateId'' \<and> entityType e = ''clients''"
  "call_index e = 4 \<longleftrightarrow> type' e = ''duplicateId'' \<and> entityType e = ''workers''"
  "call_index e = 5 \<longleftrightarrow> type' e = ''duplicateId'' \<and> entityType e = ''tasks''"
  "call_index e = 17 \<longleftrightarrow> type' e = ''unknownReferences''"
  unfolding call_index_def Let_def by (simp_all split: if_splits)

lemma POST_call_group:
  assumes "validate env clients workers tasks = Inr errors" "k < 20"
  shows "(rule_calls env clients workers tasks ! k) [] = Inr (errors_of_call k errors)"
proof -
  from validate_groups [OF assms(1)] obtain gs where gs:
    "length gs = 20" "errors = concat gs" "keyed call_index 0 gs"
    "\<forall>k<20. (rule_calls env clients workers tasks ! k) [] = Inr (gs ! k)" by blast
  have "errors_of_call k errors = gs ! k"
    unfolding errors_of_call_def gs(2)
    using filter_concat_key [OF gs(3), of k] assms(2) gs(1) by simp
  then show ?thesis using gs(4) assms(2) by simp
qed

lemma rule_calls_nth:
  "rule_calls env clients workers tasks ! 0 =
     validateRequiredColumns clients ''clients'' [''ClientID'', ''Name'', ''PriorityLevel'']"
  "rule_calls env clients workers tasks ! 1 =
     validateRequiredColumns workers ''workers'' [''WorkerID'', ''Name'', ''Skills'', ''AvailableSlots'']"
  "rule_calls env clients workers tasks ! 2 =
     validateRequiredColumns tasks ''tasks'' [''TaskID'', ''Name'', ''Duration'', ''RequiredSkills'']"
  "rule_calls env clients workers tasks ! 3 = validateUniqueIds env clients ''clients'' ''ClientID''"
  "rule_calls env clients workers tasks ! 4 = validateUniqueIds env workers ''workers'' ''WorkerID''"
  "rule_calls env clients workers tasks ! 5 = validateUniqueIds env tasks ''tasks'' ''TaskID''"
  "rule_calls env clients workers tasks ! 17 = validateTaskReferences env clients tasks"
  unfolding rule_calls_def by simp_all

lemma validateRequiredColumns_length:
  "validateRequiredColumns data ent req [] = Inr new \<Longrightarrow> length new \<le> 1"
  by (auto simp: validateRequiredColumns_def Let_def split: list.splits if_splits)

lemma POST_missing_columns_once:
  assumes "rule_calls env clients workers tasks ! k = validateRequiredColumns data ent req" "k < 20"
  shows "length (errors_of_call k (body_errors (POST env clients workers tasks))) \<le> 1"
proof (cases "validate env clients workers tasks")
  case (Inl e)
  then show ?thesis by (simp add: POST_def errors_of_call_def)
next
  case (Inr errors)
  have "validateRequiredColumns data ent req [] = Inr (errors_of_call k errors)"
    using POST_call_group [OF Inr assms(2)] unfolding assms(1) .
  then have "length (errors_of_call k errors) \<le> 1"
    by (rule validateRequiredColumns_length)
  then show ?thesis using Inr by (simp add: POST_def)
qed

text \<open>
  C10. The required-columns rule looks at the keys of the first row only: its result is the
  same whatever the other rows are, so a required column that row 0 has is never reported;
  on an empty collection it reports nothing; when row 0 lacks a required column it appends
  exactly one error, of type \<open>missingColumns\<close>, with row index 0 and the first missing
  column as column name. The returned list holds at most one such error per entity.
\<close>

theorem required_columns_first_row_only:
  "validateRequiredColumns [] ent req errors = Inr errors \<and>
   validateRequiredColumns (first # rest) ent req errors =
     validateRequiredColumns (first # rest') ent req errors \<and>
   (set req \<subseteq> set (object_keys first) \<longrightarrow>
      validateRequiredColumns (first # rest) ent req errors = Inr errors) \<and>
   (\<not> set req \<subseteq> set (object_keys first) \<longrightarrow>
      (\<exists>e. validateRequiredColumns (first # rest) ent req errors = Inr (errors @ [e]) \<and>
           type' e = ''missingColumns'' \<and> entityType e = ent \<and> rowIndex e = 0 \<and>
           columnName e = hd (filter (\<lambda>col. col \<notin> set (object_keys first)) req))) \<and>
   length (errors_of_type ''missingColumns''
             (filter (\<lambda>e. entityType e = ''clients'') (body_errors (POST env clients workers tasks)))) \<le> 1 \<and>
   length (errors_of_type ''missingColumns''
             (filter (\<lambda>e. entityType e = ''workers'') (body_errors (POST env clients workers tasks)))) \<le> 1 \<and>
   length (errors_of_type ''missingColumns''
             (filter (\<lambda>e. entityType e = ''tasks'') (body_errors (POST env clients workers tasks)))) \<le> 1"
proof -
  have a: "validateRequiredColumns [] ent req errors = Inr errors"
    by (simp add: validateRequiredColumns_def)
  have b: "validateRequiredColumns (first # rest) ent req errors =
           validateRequiredColumns (first # rest') ent req errors"
    by (simp add: validateRequiredColumns_def)
  have c: "set req \<subseteq> set (object_keys first) \<longrightarrow>
           validateRequiredColumns (first # rest) ent req errors = Inr errors"
    by (auto simp: validateRequiredColumns_def Let_def filter_empty_conv)
  have d: "\<not> set req \<subseteq> set (object_keys first) \<longrightarrow>
      (\<exists>e. validateRequiredColumns (first # rest) ent req errors = Inr (errors @ [e]) \<and>
           type' e = ''missingColumns'' \<and> entityType e = ent \<and> rowIndex e = 0 \<and>
           columnName e = hd (filter (\<lambda>col. col \<notin> set (object_keys first)) req))"
  proof
    assume "\<not> set req \<subseteq> set (object_keys first)"
    then have "filter (\<lambda>col. col \<notin> set (object_keys first)) req \<noteq> []"
      by (auto simp: filter_empty_conv)
    then show "\<exists>e. validateRequiredColumns (first # rest) ent req errors = Inr (errors @ [e]) \<and>
           type' e = ''missingColumns'' \<and> entityType e = ent \<and> rowIndex e = 0 \<and>
           columnName e = hd (filter (\<lambda>col. col \<notin> set (object_keys first)) req)"
      by (simp add: validateRequiredColumns_def Let_def)
  qed
  have e: "\<And>k ent'. errors_of_type ''missingColumns''
             (filter (\<lambda>e. entityType e = ent') (body_errors (POST env clients workers tasks)))
           = filter (\<lambda>e. type' e = ''missingColumns'' \<and> entityType e = ent')
               (body_errors (POST env clients workers tasks))"
    by (simp add: errors_of_type_def conj_commute)
  have f: "length (filter (\<lambda>e. type' e = ''missingColumns'' \<and> entityType e = ''clients'')
               (body_errors (POST env clients workers tasks))) \<le> 1"
    using POST_missing_columns_once [OF rule_calls_nth(1), of env clients workers tasks]
    unfolding errors_of_call_def call_index_cases by simp
  have g: "length (filter (\<lambda>e. type' e = ''missingColumns'' \<and> entityType e = ''workers'')
               (body_errors (POST env clients workers tasks))) \<le> 1"
    using POST_missing_columns_once [OF rule_calls_nth(2), of env clients workers tasks]
    unfolding errors_of_call_def call_index_cases by simp
  have h: "length (filter (\<lambda>e. type' e = ''missingColumns'' \<and> entityType e = ''tasks'')
               (body_errors (POST env clients workers tasks))) \<le> 1"
    using POST_missing_columns_once [OF rule_calls_nth(3), of env clients workers tasks]
    unfolding errors_of_call_def call_index_cases by simp
  show ?thesis
    unfolding e using a b c d f g h by blast
qed

theorem required_columns_first_row_only_witness:
  "validateRequiredColumns
     [[(''ClientID'', JStr ''C1''), (''Name'', JStr ''Ann''), (''PriorityLevel'', JNum (Fin 2))],
      [(''Name'', JStr ''Bob'')]]
     ''clients'' [''ClientID'', ''Name'', ''PriorityLevel''] [] = Inr [] \<and>
   (\<exists>e. validateRequiredColumns
          [[(''Name'', JStr ''Bob'')],
           [(''ClientID'', JStr ''C1''), (''Name'', JStr ''Ann''), (''PriorityLevel'', JNum (Fin 2))]]
          ''clients'' [''ClientID'', ''Name'', ''PriorityLevel''] [] = Inr [e] \<and>
        rowIndex e = 0 \<and> columnName e = ''ClientID'')"
proof -
  have a: "set [''ClientID'', ''Name'', ''PriorityLevel''] \<subseteq>
        set (object_keys [(''ClientID'', JStr ''C1''), (''Name'', JStr ''Ann''),
                          (''PriorityLevel'', JNum (Fin 2))])"
    by (simp add: object_keys_def)
  have b: "\<not> set [''ClientID'', ''Name'', ''PriorityLevel''] \<subseteq> set (object_keys [(''Name'', JStr ''Bob'')])"
    by (simp add: object_keys_def)
  have c: "hd (filter (\<lambda>col. col \<notin> set (object_keys [(''Name'', JStr ''Bob'')]))
                [''ClientID'', ''Name'', ''PriorityLevel'']) = ''ClientID''"
    by (simp add: object_keys_def)
  have "validateRequiredColumns
     [[(''ClientID'', JStr ''C1''), (''Name'', JStr ''Ann''), (''PriorityLevel'', JNum (Fin 2))],
      [(''Name'', JStr ''Bob'')]]
     ''clients'' [''ClientID'', ''Name'', ''PriorityLevel''] [] = Inr []"
    using a required_columns_first_row_only [where ent = "''clients''"
        and req = "[''ClientID'', ''Name'', ''PriorityLevel'']" and errors = "[]"
        and first = "[(''ClientID'', JStr ''C1''), (''Name'', JStr ''Ann''), (''PriorityLevel'', JNum (Fin 2))]"
        and rest = "[[(''Name'', JStr ''Bob'')]]"]
    by blast
  moreover have "\<exists>e. validateRequiredColumns
          [[(''Name'', JStr ''Bob'')],
           [(''ClientID'', JStr ''C1''), (''Name'', JStr ''Ann''), (''PriorityLevel'', JNum (Fin 2))]]
          ''clients'' [''ClientID'', ''Name'', ''PriorityLevel''] [] = Inr ([] @ [e]) \<and>
        type' e = ''missingColumns'' \<and> entityType e = ''clients'' \<and> rowIndex e = 0 \<and>
        columnName e = hd (filter (\<lambda>col. col \<notin> set (object_keys [(''Name'', JStr ''Bob'')]))
                [''ClientID'', ''Name'', ''PriorityLevel''])"
    using b required_columns_first_row_only [where ent = "''clients''"
        and req = "[''ClientID'', ''Name'', ''PriorityLevel'']" and errors = "[]"
        and first = "[(''Name'', JStr ''Bob'')]"
        and rest = "[[(''ClientID'', JStr ''C1''), (''Name'', JStr ''Ann''), (''PriorityLevel'', JNum (Fin 2))]]"]
    by blast
  ultimately show ?thesis
    unfolding c by auto
qed

subsection \<open>Duplicate identifiers (C2, C9)\<close>

lemma POST_status: "status (POST env clients workers tasks) = 200 \<longleftrightarrow>
    validate env clients workers tasks = Inr (body_errors (POST env clients workers tasks))"
  by (cases "validate env clients workers tasks") (simp_all add: POST_def)

lemma unique_call_rows:
  assumes "validate env clients workers tasks = Inr errors"
    and "rule_calls env clients workers tasks ! k = validateUniqueIds env data ent col" "k < 20"
  shows "map rowIndex (errors_of_call k errors) = filter (repeats data col) [0..<length data]"
proof -
  have "validateUniqueIds env data ent col [] = Inr (errors_of_call k errors)"
    using POST_call_group [OF assms(1,3)] unfolding assms(2) .
  then show ?thesis
    using validateUniqueIds_result [of env data ent col] by auto
qed

lemma duplicate_rows_repeats:
  assumes "status (POST env clients workers tasks) = 200"
  shows "duplicate_rows ''clients'' (body_errors (POST env clients workers tasks)) =
           filter (repeats clients ''ClientID'') [0..<length clients]"
    and "duplicate_rows ''workers'' (body_errors (POST env clients workers tasks)) =
           filter (repeats workers ''WorkerID'') [0..<length workers]"
    and "duplicate_rows ''tasks'' (body_errors (POST env clients workers tasks)) =
           filter (repeats tasks ''TaskID'') [0..<length tasks]"
proof -
  have v: "validate env clients workers tasks = Inr (body_errors (POST env clients workers tasks))"
    using assms by (simp add: POST_status)
  show "duplicate_rows ''clients'' (body_errors (POST env clients workers tasks)) =
           filter (repeats clients ''ClientID'') [0..<length clients]"
    using unique_call_rows [OF v rule_calls_nth(4)]
    unfolding duplicate_rows_def errors_of_call_def call_index_cases by simp
  show "duplicate_rows ''workers'' (body_errors (POST env clients workers tasks)) =
           filter (repeats workers ''WorkerID'') [0..<length workers]"
    using unique_call_rows [OF v rule_calls_nth(5)]
    unfolding duplicate_rows_def errors_of_call_def call_index_cases by simp
  show "duplicate_rows ''tasks'' (body_errors (POST env clients workers tasks)) =
           filter (repeats tasks ''TaskID'') [0..<length tasks]"
    using unique_call_rows [OF v rule_calls_nth(6)]
    unfolding duplicate_rows_def errors_of_call_def call_index_cases by simp
qed

lemma filter_beyond_first:
  "filter (\<lambda>j. P j \<and> (\<exists>k<j. P k)) [0..<n] = tl (filter P [0..<n])"
proof (induction n)
  case 0
  show ?case by simp
next
  case (Suc n)
  show ?case
  proof (cases "P n")
    case False
    then show ?thesis using Suc by simp
  next
    case True
    show ?thesis
    proof (cases "\<exists>k<n. P k")
      case ex: True
      then have "filter P [0..<n] \<noteq> []"
        by (auto simp: filter_empty_conv)
      then show ?thesis using Suc True ex by simp
    next
      case nex: False
      then have "filter P [0..<n] = []"
        by (auto simp: filter_empty_conv)
      then show ?thesis using Suc True nex by simp
    qed
  qed
qed

lemma rows_with_repeats:
  assumes "truthy v" "is_primitive v"
  shows "rows_with data col v (filter (repeats data col) [0..<length data]) =
         tl (occurrences data col v)"
proof -
  have "rows_with data col v (filter (repeats data col) [0..<length data]) =
        filter (\<lambda>j. get_prop (data ! j) col = v \<and> (\<exists>k<j. get_prop (data ! k) col = v))
          [0..<length data]"
    unfolding rows_with_def filter_filter
    by (rule filter_cong) (use assms in \<open>auto simp: repeats_def Let_def\<close>)
  then show ?thesis
    unfolding occurrences_def by (simp only: filter_beyond_first)
qed

text \<open>
  C2, as amended. When the pass completes (status 200), for each entity collection and each
  identifier value \<open>v\<close> that is truthy and a primitive (a non-empty string, a number other
  than 0, or true), the DuplicateId errors reported at rows carrying \<open>v\<close> are exactly one per
  occurrence of \<open>v\<close> beyond the first, at that occurrence's row index and in row order: for
  \<open>k \<ge> 1\<close> occurrences there are \<open>k - 1\<close> such errors, and none when \<open>v\<close> occurs once.
\<close>

theorem duplicate_ids_beyond_first:
  assumes "status (POST env clients workers tasks) = 200" and "truthy v" and "is_primitive v"
  shows
   "rows_with clients ''ClientID'' v (duplicate_rows ''clients'' (body_errors (POST env clients workers tasks)))
      = tl (occurrences clients ''ClientID'' v) \<and>
    rows_with workers ''WorkerID'' v (duplicate_rows ''workers'' (body_errors (POST env clients workers tasks)))
      = tl (occurrences workers ''WorkerID'' v) \<and>
    rows_with tasks ''TaskID'' v (duplicate_rows ''tasks'' (body_errors (POST env clients workers tasks)))
      = tl (occurrences tasks ''TaskID'' v) \<and>
    length (rows_with clients ''ClientID'' v
              (duplicate_rows ''clients'' (body_errors (POST env clients workers tasks))))
      = length (occurrences clients ''ClientID'' v) - 1 \<and>
    length (rows_with workers ''WorkerID'' v
              (duplicate_rows ''workers'' (body_errors (POST env clients workers tasks))))
      = length (occurrences workers ''WorkerID'' v) - 1 \<and>
    length (rows_with tasks ''TaskID'' v
              (duplicate_rows ''tasks'' (body_errors (POST env clients workers tasks))))
      = length (occurrences tasks ''TaskID'' v) - 1"
  unfolding duplicate_rows_repeats [OF assms(1)] rows_with_repeats [OF assms(2,3)]
  by simp

theorem duplicate_ids_beyond_first_witness:
  "status (POST sample_builtins
     [[(''ClientID'', JStr ''C1'')], [(''ClientID'', JStr ''C2'')],
      [(''ClientID'', JStr ''C1'')], [(''ClientID'', JStr ''C1'')]] [] []) = 200 \<and>
   truthy (JStr ''C1'') \<and> is_primitive (JStr ''C1'') \<and>
   rows_with [[(''ClientID'', JStr ''C1'')], [(''ClientID'', JStr ''C2'')],
              [(''ClientID'', JStr ''C1'')], [(''ClientID'', JStr ''C1'')]] ''ClientID'' (JStr ''C1'')
     (duplicate_rows ''clients'' (body_errors (POST sample_builtins
        [[(''ClientID'', JStr ''C1'')], [(''ClientID'', JStr ''C2'')],
         [(''ClientID'', JStr ''C1'')], [(''ClientID'', JStr ''C1'')]] [] []))) = [2, 3]"
proof -
  have st: "status (POST sample_builtins
     [[(''ClientID'', JStr ''C1'')], [(''ClientID'', JStr ''C2'')],
      [(''ClientID'', JStr ''C1'')], [(''ClientID'', JStr ''C1'')]] [] []) = 200"
    by code_simp
  have t: "truthy (JStr ''C1'')" and p: "is_primitive (JStr ''C1'')"
    by simp_all
  have occ: "tl (occurrences [[(''ClientID'', JStr ''C1'')], [(''ClientID'', JStr ''C2'')],
              [(''ClientID'', JStr ''C1'')], [(''ClientID'', JStr ''C1'')]] ''ClientID'' (JStr ''C1''))
             = [2, 3]"
    by code_simp
  show ?thesis
    using st t p occ duplicate_ids_beyond_first [OF st t p] by simp
qed

text \<open>
  C2 as stated fails for an identifier the rule skips: the empty string occurs twice in the
  id column below, and no DuplicateId error is reported.
\<close>

theorem empty_id_twice_not_reported:
  "occurrences [[(''ClientID'', JStr []), (''Name'', JStr ''Ann''), (''PriorityLevel'', JNum (Fin 1))],
                [(''ClientID'', JStr []), (''Name'', JStr ''Bob''), (''PriorityLevel'', JNum (Fin 2))]]
     ''ClientID'' (JStr []) = [0, 1] \<and>
   POST sample_builtins
     [[(''ClientID'', JStr []), (''Name'', JStr ''Ann''), (''PriorityLevel'', JNum (Fin 1))],
      [(''ClientID'', JStr []), (''Name'', JStr ''Bob''), (''PriorityLevel'', JNum (Fin 2))]] [] []
     = \<lparr> body_errors = [], status = 200 \<rparr>"
  by code_simp

lemma falsy_not_repeats:
  "\<not> truthy (get_prop (data ! j) col) \<Longrightarrow> \<not> repeats data col j"
  by (simp add: repeats_def Let_def)

lemma validateUniqueIds_all_falsy:
  assumes "\<forall>r\<in>set data. \<not> truthy (get_prop r col)"
  shows "validateUniqueIds env data ent col errors = Inr errors"
proof -
  obtain new where new: "validateUniqueIds env data ent col [] = Inr new"
    "map rowIndex new = filter (repeats data col) [0..<length data]"
    using validateUniqueIds_result by blast
  have "filter (repeats data col) [0..<length data] = []"
    unfolding filter_empty_conv using assms falsy_not_repeats by simp
  then have "new = []" using new(2) by simp
  then show ?thesis
    using new(1) appendsD [OF validateUniqueIds_appends, of env data ent col errors] by simp
qed

lemma duplicate_rows_truthy:
  assumes "j \<in> set (filter (repeats data col) [0..<length data])"
  shows "j < length data \<and> truthy (get_prop (data ! j) col)"
  using assms by (simp add: repeats_def Let_def)

text \<open>
  C9. The uniqueness rule skips a row whose identifier is falsy. A collection in which every
  identifier is absent, null or the empty string gets no error from the rule, although the
  rows share that identifier; and in the returned list every DuplicateId error points at a
  row of its entity whose identifier is truthy.
\<close>

theorem falsy_ids_never_duplicates:
  "((\<forall>r\<in>set data. get_prop r idColumn \<in> {JUndefined, JNull, JStr []}) \<longrightarrow>
      validateUniqueIds env data ent idColumn errors = Inr errors) \<and>
   (\<forall>j\<in>set (duplicate_rows ''clients'' (body_errors (POST env clients workers tasks))).
      j < length clients \<and> truthy (get_prop (clients ! j) ''ClientID'')) \<and>
   (\<forall>j\<in>set (duplicate_rows ''workers'' (body_errors (POST env clients workers tasks))).
      j < length workers \<and> truthy (get_prop (workers ! j) ''WorkerID'')) \<and>
   (\<forall>j\<in>set (duplicate_rows ''tasks'' (body_errors (POST env clients workers tasks))).
      j < length tasks \<and> truthy (get_prop (tasks ! j) ''TaskID''))"
proof -
  have a: "(\<forall>r\<in>set data. get_prop r idColumn \<in> {JUndefined, JNull, JStr []}) \<longrightarrow>
      validateUniqueIds env data ent idColumn errors = Inr errors"
  proof
    assume "\<forall>r\<in>set data. get_prop r idColumn \<in> {JUndefined, JNull, JStr []}"
    then have "\<forall>r\<in>set data. \<not> truthy (get_prop r idColumn)" by auto
    then show "validateUniqueIds env data ent idColumn errors = Inr errors"
      by (rule validateUniqueIds_all_falsy)
  qed
  show ?thesis
  proof (cases "status (POST env clients workers tasks) = 200")
    case True
    show ?thesis
      unfolding duplicate_rows_repeats [OF True]
      using a duplicate_rows_truthy by blast
  next
    case False
    then have "body_errors (POST env clients workers tasks) = []"
      using POST_cases [of env clients workers tasks] by auto
    then show ?thesis
      using a by (simp add: duplicate_rows_def)
  qed
qed

theorem falsy_ids_never_duplicates_witness:
  "validateUniqueIds sample_builtins
     [[(''Name'', JStr ''Ann'')], [(''ClientID'', JNull)], [(''ClientID'', JStr [])],
      [(''ClientID'', JStr [])]] ''clients'' ''ClientID'' [] = Inr []"
proof -
  have "\<forall>r\<in>set [[(''Name'', JStr ''Ann'')], [(''ClientID'', JNull)], [(''ClientID'', JStr [])],
                  [(''ClientID'', JStr [])]].
          get_prop r ''ClientID'' \<in> {JUndefined, JNull, JStr []}"
    by (simp add: get_prop_def)
  then show ?thesis
    using falsy_ids_never_duplicates [where data = "[[(''Name'', JStr ''Ann'')], [(''ClientID'', JNull)],
        [(''ClientID'', JStr [])], [(''ClientID'', JStr [])]]" and idColumn = "''ClientID''"
        and env = sample_builtins and ent = "''clients''" and errors = "[]"]
    by blast
qed

subsection \<open>Unknown task references (C3)\<close>

lemma set_foldl_set_add: "set (foldl set_add s vs) = set s \<union> set vs"
  by (induction vs arbitrary: s) (auto simp: set_set_add)

lemma set_new_Set: "set (new_Set vs) = set vs"
  by (simp add: new_Set_def set_foldl_set_add)

lemma join_single_string: "join env sep [JStr s] = Inr s"
  by (simp add: join_def)

lemma taskReferencesRow_unknown:
  assumes "get_prop client ''RequestedTaskIDs'' = JArr [JStr t]" "JStr t \<notin> set taskIds"
  shows "\<exists>e. taskReferencesRow env taskIds client index [] = Inr [e] \<and>
             type' e = ''unknownReferences'' \<and> entityType e = ''clients'' \<and> rowIndex e = index \<and>
             columnName e = ''RequestedTaskIDs'' \<and> severity e = SevError"
  using assms by (simp add: taskReferencesRow_def set_has_iff join_single_string)

text \<open>
  C3, as amended. When the pass completes (status 200) and the task collection is not empty,
  a client row whose \<open>RequestedTaskIDs\<close> is the array \<open>["T99"]\<close>, with no task row of
  TaskID \<open>"T99"\<close>, gets an UnknownReference error carrying that row's index and the
  column name \<open>RequestedTaskIDs\<close>.
\<close>

theorem unknown_task_reference_reported:
  assumes "status (POST env clients workers tasks) = 200"
    and "tasks \<noteq> []"
    and "i < length clients"
    and "get_prop (clients ! i) ''RequestedTaskIDs'' = JArr [JStr ''T99'']"
    and "\<forall>task\<in>set tasks. get_prop task ''TaskID'' \<noteq> JStr ''T99''"
  shows "\<exists>e\<in>set (body_errors (POST env clients workers tasks)).
           type' e = ''unknownReferences'' \<and> entityType e = ''clients'' \<and> rowIndex e = i \<and>
           columnName e = ''RequestedTaskIDs'' \<and> severity e = SevError"
proof -
  let ?errors = "body_errors (POST env clients workers tasks)"
  let ?taskIds = "new_Set (filter truthy (map (\<lambda>task. get_prop task ''TaskID'') tasks))"
  have v: "validate env clients workers tasks = Inr ?errors"
    using assms(1) by (simp add: POST_status)
  have ne: "clients \<noteq> []" using assms(3) by auto
  have "validateTaskReferences env clients tasks [] = Inr (errors_of_call 17 ?errors)"
    using POST_call_group [OF v, of 17] by (simp add: rule_calls_nth)
  then have run: "forEach (taskReferencesRow env ?taskIds) clients 0 [] = Inr (errors_of_call 17 ?errors)"
    using ne assms(2) by (simp add: validateTaskReferences_def)
  have app: "\<forall>x\<in>set clients. \<forall>j. appends (taskReferencesRow env ?taskIds x j)"
    by (simp add: taskReferencesRow_appends)
  from run obtain news where news: "length news = length clients"
      "\<forall>j<length clients. taskReferencesRow env ?taskIds (clients ! j) (0 + j) [] = Inr (news ! j)"
      "errors_of_call 17 ?errors = concat news"
    unfolding forEach_Inr_iff [OF app] by blast
  have "JStr ''T99'' \<notin> set ?taskIds"
    unfolding set_new_Set using assms(5) by auto
  from taskReferencesRow_unknown [OF assms(4) this, of env i] obtain e where e:
    "taskReferencesRow env ?taskIds (clients ! i) i [] = Inr [e]"
    "type' e = ''unknownReferences'' \<and> entityType e = ''clients'' \<and> rowIndex e = i \<and>
     columnName e = ''RequestedTaskIDs'' \<and> severity e = SevError"
    by blast
  have "news ! i = [e]"
    using news(2) assms(3) e(1) by simp
  moreover have "news ! i \<in> set news"
    using news(1) assms(3) by simp
  ultimately have "e \<in> set (concat news)"
    by (metis list.set_intros(1) UN_I set_concat)
  then have "e \<in> set ?errors"
    using news(3) unfolding errors_of_call_def by (metis filter_is_subset subsetD)
  then show ?thesis using e(2) by blast
qed

theorem unknown_task_reference_reported_witness:
  "status (POST sample_builtins
      [[(''ClientID'', JStr ''C1''), (''RequestedTaskIDs'', JArr [JStr ''T99''])]] []
      [[(''TaskID'', JStr ''T1'')]]) = 200 \<and>
   (\<exists>e\<in>set (body_errors (POST sample_builtins
      [[(''ClientID'', JStr ''C1''), (''RequestedTaskIDs'', JArr [JStr ''T99''])]] []
      [[(''TaskID'', JStr ''T1'')]])).
      type' e = ''unknownReferences'' \<and> entityType e = ''clients'' \<and> rowIndex e = 0 \<and>
      columnName e = ''RequestedTaskIDs'' \<and> severity e = SevError)"
proof -
  have st: "status (POST sample_builtins
      [[(''ClientID'', JStr ''C1''), (''RequestedTaskIDs'', JArr [JStr ''T99''])]] []
      [[(''TaskID'', JStr ''T1'')]]) = 200"
    by code_simp
  have ne: "[[(''TaskID'', JStr ''T1'')]] \<noteq> []"
    by simp
  have i: "0 < length [[(''ClientID'', JStr ''C1''), (''RequestedTaskIDs'', JArr [JStr ''T99''])]]"
    by simp
  have req: "get_prop ([[(''ClientID'', JStr ''C1''), (''RequestedTaskIDs'', JArr [JStr ''T99''])]] ! 0)
               ''RequestedTaskIDs'' = JArr [JStr ''T99'']"
    by (simp add: get_prop_def)
  have none: "\<forall>task\<in>set [[(''TaskID'', JStr ''T1'')]]. get_prop task ''TaskID'' \<noteq> JStr ''T99''"
    by (simp add: get_prop_def)
  show ?thesis
    using st unknown_task_reference_reported [OF st ne i req none] by blast
qed

text \<open>
  C3 as stated fails when the task collection is empty: the rule returns at once, and the
  request for \<open>T99\<close> is not reported.
\<close>

theorem no_reference_check_without_tasks:
  "POST sample_builtins
     [[(''ClientID'', JStr ''C1''), (''Name'', JStr ''Ann''), (''PriorityLevel'', JNum (Fin 1)),
       (''RequestedTaskIDs'', JArr [JStr ''T99''])]] [] []
   = \<lparr> body_errors = [], status = 200 \<rparr>"
  by code_simp

subsection \<open>The handler and thrown errors (C1)\<close>

lemma sequence_total:
  "(\<forall>r\<in>set rs. \<exists>x. r = Inr x) \<Longrightarrow> \<exists>xs. sequence rs = Inr xs"
proof (induction rs)
  case Nil
  show ?case by simp
next
  case (Cons r rs)
  then obtain x xs where "r = Inr x" "sequence rs = Inr xs" by auto
  then show ?case by simp
qed

lemma toString_total: "stringifiable v \<Longrightarrow> \<exists>s. toString env v = Inr s"
proof (induction v)
  case (JArr vs)
  have "\<forall>r\<in>set (map (\<lambda>v. if v = JUndefined \<or> v = JNull then Inr [] else toString env v) vs).
          \<exists>x. r = Inr x"
    using JArr by auto
  from sequence_total [OF this] obtain ss where
    "sequence (map (\<lambda>v. if v = JUndefined \<or> v = JNull then Inr [] else toString env v) vs) = Inr ss"
    by blast
  then show ?case by simp
qed simp_all

lemma join_total:
  assumes "\<forall>v\<in>set vs. stringifiable v"
  shows "\<exists>s. join env sep vs = Inr s"
proof -
  have "\<forall>r\<in>set (map (\<lambda>v. if v = JUndefined \<or> v = JNull then Inr [] else toString env v) vs).
          \<exists>x. r = Inr x"
    using assms toString_total by auto
  from sequence_total [OF this] obtain ss where
    "sequence (map (\<lambda>v. if v = JUndefined \<or> v = JNull then Inr [] else toString env v) vs) = Inr ss"
    by blast
  then show ?thesis by (simp add: join_def)
qed

lemma toNumber_total: "stringifiable v \<Longrightarrow> \<exists>n. toNumber env v = Inr n"
proof (cases v)
  case (JArr vs)
  assume "stringifiable v"
  from toString_total [OF this, of env] obtain s where "toString env v = Inr s" by blast
  then show ?thesis using JArr by simp
next
  case (JObj ps)
  assume "stringifiable v"
  from toString_total [OF this, of env] obtain s where "toString env v = Inr s" by blast
  then show ?thesis using JObj by simp
qed simp_all

lemma get_prop_plain: "plain_row r \<Longrightarrow> stringifiable (get_prop r k)"
proof -
  assume p: "plain_row r"
  show ?thesis
  proof (cases "map_of r k")
    case None
    then show ?thesis by (simp add: get_prop_def)
  next
    case (Some v)
    then have "(k, v) \<in> set r" by (rule map_of_SomeD)
    then have "v \<in> set (map snd r)" by force
    then have "stringifiable v" using p unfolding plain_row_def by blast
    then show ?thesis using Some by (simp add: get_prop_def)
  qed
qed

lemma get_prop_plain_items:
  "plain_row r \<Longrightarrow> get_prop r k = JArr items \<Longrightarrow> \<forall>v\<in>set (filter P items). stringifiable v"
  using get_prop_plain [of r k] by simp

lemma forEach_total:
  "(\<forall>x\<in>set xs. \<forall>i s. \<exists>s'. f x i s = Inr s') \<Longrightarrow> \<exists>s'. forEach f xs i s = Inr s'"
proof (induction xs arbitrary: i s)
  case Nil
  show ?case by simp
next
  case (Cons x xs)
  then obtain s' where "f x i s = Inr s'" by fastforce
  moreover have "\<exists>s''. forEach f xs (Suc i) s' = Inr s''"
    using Cons by simp
  ultimately show ?case by simp
qed

lemma arrayFieldsRow_total:
  assumes "plain_row r"
  shows "\<exists>out. arrayFieldsRow env ent fld ty r i errors = Inr out"
proof (cases "get_prop r fld")
  case (JArr items)
  let ?bad = "filter (\<lambda>item. if ty = ''number''
                                    then typeof item \<noteq> ''number'' \<or> item = JNum NaN
                                    else typeof item \<noteq> ty) items"
  obtain shown where "join env '', '' ?bad = Inr shown"
    using join_total [OF get_prop_plain_items [OF assms JArr]] by blast
  then show ?thesis
    using JArr by (simp add: arrayFieldsRow_def Let_def)
qed (simp_all add: arrayFieldsRow_def)

lemma rangeRow_total:
  assumes "plain_row r"
  shows "\<exists>out. rangeRow env ent fld lo hi r i errors = Inr out"
proof -
  obtain n s where "toNumber env (get_prop r fld) = Inr n" "toString env (get_prop r fld) = Inr s"
    using toNumber_total toString_total get_prop_plain [OF assms] by meson
  then show ?thesis by (simp add: rangeRow_def Let_def)
qed

lemma minValueRow_total:
  assumes "plain_row r"
  shows "\<exists>out. minValueRow env ent fld lo r i errors = Inr out"
proof -
  obtain n s where "toNumber env (get_prop r fld) = Inr n" "toString env (get_prop r fld) = Inr s"
    using toNumber_total toString_total get_prop_plain [OF assms] by meson
  then show ?thesis by (simp add: minValueRow_def Let_def)
qed

lemma jsonRow_total: "\<exists>out. jsonRow env ent fld r i errors = Inr out"
  by (simp add: jsonRow_def Let_def split: jsval.splits)

lemma taskReferencesRow_total:
  assumes "plain_row r"
  shows "\<exists>out. taskReferencesRow env tids r i errors = Inr out"
proof (cases "get_prop r ''RequestedTaskIDs''")
  case (JArr items)
  obtain shown where "join env '', '' (filter (\<lambda>taskId. \<not> set_has tids taskId) items) = Inr shown"
    using join_total [OF get_prop_plain_items [OF assms JArr]] by blast
  then show ?thesis
    using JArr by (simp add: taskReferencesRow_def Let_def)
qed (simp_all add: taskReferencesRow_def)

lemma workerCapacityRow_total: "\<exists>out. workerCapacityRow env r i errors = Inr out"
  by (simp add: workerCapacityRow_def Let_def split: jsval.splits)

lemma skillCoverageRow_total:
  assumes "plain_row r"
  shows "\<exists>out. skillCoverageRow env sk r i errors = Inr out"
proof (cases "get_prop r ''RequiredSkills''")
  case (JArr items)
  obtain shown where "join env '', '' (filter (\<lambda>skill. \<not> set_has sk skill) items) = Inr shown"
    using join_total [OF get_prop_plain_items [OF assms JArr]] by blast
  then show ?thesis
    using JArr by (simp add: skillCoverageRow_def Let_def)
qed (simp_all add: skillCoverageRow_def)

lemma total_forEach: "(\<And>x i errors. x \<in> set xs \<Longrightarrow> \<exists>out. f x i errors = Inr out) \<Longrightarrow> total (forEach f xs 0)"
  unfolding total_def using forEach_total [of xs f 0] by blast

lemma total_skip: "total (\<lambda>errors. Inr errors)"
  by (simp add: total_def)

lemma validateRequiredColumns_total: "total (validateRequiredColumns data ent req)"
  unfolding total_def by (simp add: validateRequiredColumns_def Let_def split: list.splits)

lemma validateUniqueIds_total: "total (validateUniqueIds env data ent col)"
  unfolding total_def
proof
  fix errors
  obtain new where "validateUniqueIds env data ent col [] = Inr new"
    using validateUniqueIds_result by blast
  then show "\<exists>out. validateUniqueIds env data ent col errors = Inr out"
    using appendsD [OF validateUniqueIds_appends, of env data ent col errors] by simp
qed

lemma validateArrayFields_total:
  "\<forall>r\<in>set data. plain_row r \<Longrightarrow> total (validateArrayFields env data ent fld ty)"
  unfolding validateArrayFields_def
  by (cases "data = []") (simp_all add: total_skip total_forEach arrayFieldsRow_total)

lemma validateRange_total:
  "\<forall>r\<in>set data. plain_row r \<Longrightarrow> total (validateRange env data ent fld lo hi)"
  unfolding validateRange_def
  by (cases "data = []") (simp_all add: total_skip total_forEach rangeRow_total)

lemma validateMinValue_total:
  "\<forall>r\<in>set data. plain_row r \<Longrightarrow> total (validateMinValue env data ent fld lo)"
  unfolding validateMinValue_def
  by (cases "data = []") (simp_all add: total_skip total_forEach minValueRow_total)

lemma validateJSON_total: "total (validateJSON env data ent fld)"
  unfolding validateJSON_def
  by (cases "data = []") (simp_all add: total_skip total_forEach jsonRow_total)

lemma validateTaskReferences_total:
  "\<forall>r\<in>set clients. plain_row r \<Longrightarrow> total (validateTaskReferences env clients tasks)"
  unfolding validateTaskReferences_def Let_def
  by (cases "clients = [] \<or> tasks = []") (simp_all add: total_skip total_forEach taskReferencesRow_total)

lemma validateWorkerCapacity_total: "total (validateWorkerCapacity env workers)"
  unfolding validateWorkerCapacity_def
  by (cases "workers = []") (simp_all add: total_skip total_forEach workerCapacityRow_total)

lemma validateSkillCoverage_total:
  "\<forall>r\<in>set tasks. plain_row r \<Longrightarrow> total (validateSkillCoverage env workers tasks)"
  unfolding validateSkillCoverage_def
  by (cases "workers = [] \<or> tasks = []") (simp_all add: total_skip total_forEach skillCoverageRow_total)

lemma run_rules_total: "\<forall>r\<in>set rs. total r \<Longrightarrow> \<exists>out. run_rules rs errors = Inr out"
proof (induction rs arbitrary: errors)
  case Nil
  show ?case by simp
next
  case (Cons r rs)
  then obtain errors' where "r errors = Inr errors'"
    unfolding total_def by fastforce
  moreover have "\<exists>out. run_rules rs errors' = Inr out"
    using Cons by simp
  ultimately show ?case by simp
qed

lemma validate_total:
  assumes "\<forall>r\<in>set clients. plain_row r" "\<forall>r\<in>set workers. plain_row r" "\<forall>r\<in>set tasks. plain_row r"
  shows "\<exists>errors. validate env clients workers tasks = Inr errors"
  unfolding validate_def
proof (rule run_rules_total)
  show "\<forall>r\<in>set (rule_calls env clients workers tasks). total r"
    unfolding rule_calls_def
    using assms
    by (simp add: validateRequiredColumns_total validateUniqueIds_total validateArrayFields_total
          validateRange_total validateMinValue_total validateJSON_total validateTaskReferences_total
          validateWorkerCapacity_total validateSkillCoverage_total)
qed

text \<open>
  C1, as amended. The handler never throws: it answers with status 200 and the list the rule
  calls built, or, when a rule throws, with status 500 and the empty list. When no value of
  any row holds, at any depth of arrays, an object with an own property named
  \<open>toString\<close>, no rule throws and the answer has status 200. The rules do not trap a
  throw themselves: one thrown by one rule on one row drops the errors of all rules and rows.
\<close>

theorem handler_always_answers:
  "(status (POST env clients workers tasks) = 200 \<and>
      validate env clients workers tasks = Inr (body_errors (POST env clients workers tasks)) \<or>
    POST env clients workers tasks = \<lparr> body_errors = [], status = 500 \<rparr> \<and>
      validate env clients workers tasks = Inl TypeError) \<and>
   ((\<forall>r\<in>set (clients @ workers @ tasks). plain_row r) \<longrightarrow>
      status (POST env clients workers tasks) = 200)"
proof -
  have a: "status (POST env clients workers tasks) = 200 \<and>
      validate env clients workers tasks = Inr (body_errors (POST env clients workers tasks)) \<or>
    POST env clients workers tasks = \<lparr> body_errors = [], status = 500 \<rparr> \<and>
      validate env clients workers tasks = Inl TypeError"
  proof (cases "validate env clients workers tasks")
    case (Inl e)
    then show ?thesis by (cases e) (simp add: POST_def)
  next
    case (Inr errors)
    then show ?thesis by (simp add: POST_def)
  qed
  have b: "(\<forall>r\<in>set (clients @ workers @ tasks). plain_row r) \<longrightarrow>
      status (POST env clients workers tasks) = 200"
  proof
    assume "\<forall>r\<in>set (clients @ workers @ tasks). plain_row r"
    then have "\<exists>errors. validate env clients workers tasks = Inr errors"
      using validate_total [of clients workers tasks env] by simp
    then show "status (POST env clients workers tasks) = 200"
      by (auto simp: POST_def)
  qed
  show ?thesis using a b by blast
qed

theorem handler_always_answers_witness:
  "status (POST sample_builtins
     [[(''ClientID'', JStr ''C1''), (''PriorityLevel'', JArr [JObj [(''valueOf'', JNull)], JNum (Fin 9)])]]
     [[(''WorkerID'', JStr ''W1''), (''Skills'', JArr [JNum (Fin 3), JNull])]]
     []) = 200"
proof -
  have "\<forall>r\<in>set ([[(''ClientID'', JStr ''C1''),
                    (''PriorityLevel'', JArr [JObj [(''valueOf'', JNull)], JNum (Fin 9)])]]
                 @ [[(''WorkerID'', JStr ''W1''), (''Skills'', JArr [JNum (Fin 3), JNull])]] @ []).
          plain_row r"
    by (simp add: plain_row_def)
  then show ?thesis
    using handler_always_answers [of sample_builtins
      "[[(''ClientID'', JStr ''C1''),
         (''PriorityLevel'', JArr [JObj [(''valueOf'', JNull)], JNum (Fin 9)])]]"
      "[[(''WorkerID'', JStr ''W1''), (''Skills'', JArr [JNum (Fin 3), JNull])]]" "[]"]
    by blast
qed

text \<open>
  C1 as stated fails. The first worker row alone gets two errors. With a second row whose
  \<open>Skills\<close> array holds the object \<open>{"toString": 1}\<close>, joining the invalid elements for
  the message throws a TypeError in the array rule; nothing traps it before the handler's
  own \<open>catch\<close>, and the answer is the empty list with status 500.
\<close>

theorem one_row_empties_the_list:
  "map type' (body_errors (POST sample_builtins []
      [[(''WorkerID'', JStr ''W1''), (''Skills'', JStr ''welding'')]] []))
     = [''missingColumns'', ''malformedArray''] \<and>
   POST sample_builtins []
      [[(''WorkerID'', JStr ''W1''), (''Skills'', JStr ''welding'')],
       [(''WorkerID'', JStr ''W2''), (''Skills'', JArr [JObj [(''toString'', JNum (Fin 1))]])]] []
     = \<lparr> body_errors = [], status = 500 \<rparr>"
  by code_simp

subsection \<open>Cleaning a response (C5)\<close>

lemma strip_at_line_start_id:
  "fence_apart bol s \<Longrightarrow> prefix fence pat \<Longrightarrow> strip_at_line_start pat bol s = s"
proof (induction s arbitrary: bol)
  case Nil
  show ?case by simp
next
  case (Cons c cs)
  have cond: "(pat \<noteq> [] \<and> bol \<and> prefix pat (c # cs)) = False"
  proof -
    have "\<not> (bol \<and> prefix pat (c # cs))"
    proof
      assume a: "bol \<and> prefix pat (c # cs)"
      then have "prefix fence (c # cs)"
        using Cons.prems(2) by (meson prefix_order.trans)
      then show False using Cons.prems(1) a by simp
    qed
    then show ?thesis by simp
  qed
  have tail: "strip_at_line_start pat (is_line_terminator c) cs = cs"
    using Cons.IH [of "is_line_terminator c"] Cons.prems by simp
  show ?case
    by (simp only: strip_at_line_start.simps cond if_False tail)
qed

lemma fence_apart_dropWhile: "fence_apart bol s \<Longrightarrow> \<exists>b. fence_apart b (dropWhile P s)"
proof (induction s arbitrary: bol)
  case Nil
  show ?case by simp
next
  case (Cons c cs)
  show ?case
  proof (cases "P c")
    case True
    then show ?thesis using Cons.IH [of "is_line_terminator c"] Cons.prems by simp
  next
    case False
    then have "dropWhile P (c # cs) = c # cs" by simp
    then show ?thesis using Cons.prems by metis
  qed
qed

lemma fence_apart_prefix:
  "fence_apart b t \<Longrightarrow> prefix fence t \<Longrightarrow> drop 3 t \<noteq> [] \<and> \<not> is_line_terminator (hd (drop 3 t))"
  by (cases t) (simp_all add: fence_def)

lemma strip_fence_at_line_end_id: "fence_apart bol s \<Longrightarrow> strip_fence_at_line_end s = s"
proof (induction s arbitrary: bol)
  case Nil
  show ?case by simp
next
  case (Cons c cs)
  let ?rest = "dropWhile is_white_space (c # cs)"
  obtain b where "fence_apart b ?rest"
    using fence_apart_dropWhile [OF Cons.prems] by blast
  then have "\<not> (prefix fence ?rest \<and> (drop 3 ?rest = [] \<or> is_line_terminator (hd (drop 3 ?rest))))"
    using fence_apart_prefix by blast
  then have cond: "(prefix fence ?rest \<and> (drop 3 ?rest = [] \<or> is_line_terminator (hd (drop 3 ?rest))))
                   = False"
    by simp
  have tail: "strip_fence_at_line_end cs = cs"
    using Cons.IH [of "is_line_terminator c"] Cons.prems by simp
  show ?case
    by (simp only: strip_fence_at_line_end.simps Let_def cond if_False tail)
qed

lemma indexOf_first: "c \<notin> set xs \<Longrightarrow> indexOf (xs @ c # ys) c = int (length xs)"
  by (induction xs) (auto simp: Let_def)

lemma lastIndexOf_last:
  assumes "c \<notin> set ys"
  shows "lastIndexOf (xs @ c # ys) c = int (length xs)"
proof -
  have "rev (xs @ c # ys) = rev ys @ c # rev xs" by simp
  moreover have "c \<notin> set (rev ys)" using assms by simp
  ultimately have "indexOf (rev (xs @ c # ys)) c = int (length ys)"
    using indexOf_first [of c "rev ys" "rev xs"] by simp
  then show ?thesis by (simp add: lastIndexOf_def Let_def)
qed

lemma trim_id:
  assumes "s \<noteq> []" "\<not> is_white_space (hd s)" "\<not> is_white_space (last s)"
  shows "trim s = s"
proof -
  have "dropWhile is_white_space s = s"
    using assms(1,2) by (cases s) simp_all
  moreover have "dropWhile is_white_space (rev s) = rev s"
    using assms(1,3) by (cases "rev s") (simp_all add: last_rev [symmetric] hd_rev)
  ultimately show ?thesis by (simp add: trim_def)
qed

lemma json_fence_facts:
  "prefix fence (ascii ''```json'')" "length (ascii ''```json'') = 7"
  "0x7B \<notin> set (ascii ''```json'')" "hd (ascii ''```json'') = 0x60"
  "ascii ''```json'' \<noteq> []"
  by (simp_all add: ascii_def fence_def)

lemma brace_not_white_space: "\<not> is_white_space 0x7B" "\<not> is_white_space 0x7D" "\<not> is_white_space 0x60"
  by (simp_all add: is_white_space_def)

text \<open>
  C5, as amended. A response made of the fence \<open>```json\<close>, white space, a text that begins
  with \<open>{\<close> and ends with \<open>}\<close>, white space and the fence \<open>```\<close> is cleaned to exactly
  that text, provided no run of three backticks inside the text stands at the start or at
  the end of a line (lines end at LF, CR, U+2028 and U+2029). In a JSON object text a
  backtick can only stand inside a string, and a string holds no raw LF or CR, so only the
  separators U+2028 and U+2029 inside a string can bring three backticks to a line boundary.
  The response \<open>```json\n{"a":1}\n```\<close> is cleaned to \<open>{"a":1}\<close>.
\<close>

theorem clean_fenced_object:
  assumes "\<forall>c\<in>set ws1. is_white_space c" and "\<forall>c\<in>set ws2. is_white_space c"
    and "obj \<noteq> []" and "hd obj = 0x7B" and "last obj = 0x7D"
    and "fence_apart True obj"
  shows "cleanResponse (ascii ''```json'' @ ws1 @ obj @ ws2 @ fence) = obj"
proof -
  let ?J = "ascii ''```json''"
  let ?resp = "?J @ ws1 @ obj @ ws2 @ fence"
  obtain body where body: "obj = 0x7B # body"
    using assms(3,4) by (cases obj) auto
  obtain front where front: "obj = front @ [0x7D]"
    using assms(3,5) by (metis append_butlast_last_id)
  have "?resp \<noteq> []" "hd ?resp = 0x60" "last ?resp = 0x60"
    using json_fence_facts by (simp_all add: fence_def)
  then have t: "trim ?resp = ?resp"
    using trim_id [of ?resp] brace_not_white_space by simp
  have "0x7B \<notin> set (?J @ ws1)"
    using assms(1) json_fence_facts(3) brace_not_white_space(1) by auto
  then have "indexOf ((?J @ ws1) @ 0x7B # (body @ ws2 @ fence)) 0x7B = int (length (?J @ ws1))"
    by (rule indexOf_first)
  then have first: "indexOf ?resp 0x7B = int (7 + length ws1)"
    using body json_fence_facts(2) by simp
  have d: "drop (7 + length ws1) ?resp = obj @ ws2 @ fence"
    using json_fence_facts(2) by simp
  have "0x7D \<notin> set (ws2 @ fence)"
    using assms(2) brace_not_white_space(2) by (auto simp: fence_def)
  then have "lastIndexOf (front @ 0x7D # (ws2 @ fence)) 0x7D = int (length front)"
    by (rule lastIndexOf_last)
  then have last: "lastIndexOf (obj @ ws2 @ fence) 0x7D = int (length obj) - 1"
    using front by simp
  have k: "take (length obj) (obj @ ws2 @ fence) = obj"
    by simp
  have ne: "int (length obj) - 1 \<noteq> -1"
    using assms(3) by simp
  have pos: "(int (7 + length ws1) > 0) = True"
    by simp
  have n1: "nat (int (7 + length ws1)) = 7 + length ws1"
    by simp
  have n2: "nat (int (length obj) - 1 + 1) = length obj"
    by simp
  have ne': "(int (length obj) - 1 \<noteq> -1) = True"
    using ne by simp
  have c: "cleanResponse ?resp =
        strip_fence_at_line_end
           (strip_at_line_start fence True (strip_at_line_start ?J True obj))"
    unfolding cleanResponse_def t Let_def first
    by (simp only: pos if_True n1 d last ne' n2 k)
  show ?thesis
    unfolding c
    using strip_at_line_start_id [OF assms(6) json_fence_facts(1)]
          strip_at_line_start_id [OF assms(6), of fence]
          strip_fence_at_line_end_id [OF assms(6)]
    by simp
qed

theorem clean_fenced_object_witness:
  \<open>cleanResponse (ascii ''```json\<newline>{"a":1}\<newline>```'') = ascii ''{"a":1}''\<close>
proof -
  have ws: "\<forall>c\<in>set [0x0A]. is_white_space c"
    by (simp add: is_white_space_def)
  have ne: \<open>ascii ''{"a":1}'' \<noteq> []\<close> and h: \<open>hd (ascii ''{"a":1}'') = 0x7B\<close>
    and l: \<open>last (ascii ''{"a":1}'') = 0x7D\<close>
    by (simp_all add: ascii_def)
  have fa: \<open>fence_apart True (ascii ''{"a":1}'')\<close>
    by (simp add: ascii_def fence_def)
  have \<open>ascii ''```json\<newline>{"a":1}\<newline>```'' = ascii ''```json'' @ [0x0A] @ ascii ''{"a":1}'' @ [0x0A] @ fence\<close>
    by (simp add: ascii_def fence_def)
  then show ?thesis
    using clean_fenced_object [OF ws ws ne h l fa] by simp
qed

text \<open>
  C5 as stated fails for a JSON object whose string holds the line separator U+2028 followed
  by three backticks: the second replacement takes the backticks for a fence at the start
  of a line and removes them, so the cleaned text is not the embedded object.
\<close>

theorem clean_damages_object_with_line_separator:
  \<open>cleanResponse (ascii ''```json\<newline>'' @ (ascii ''{"a":"'' @ [0x2028] @ ascii ''```"}'')
                    @ ascii ''\<newline>```'')
     = ascii ''{"a":"'' @ [0x2028] @ ascii ''"}'' \<and>
   cleanResponse (ascii ''```json\<newline>'' @ (ascii ''{"a":"'' @ [0x2028] @ ascii ''```"}'')
                    @ ascii ''\<newline>```'')
     \<noteq> ascii ''{"a":"'' @ [0x2028] @ ascii ''```"}''\<close>
  by code_simp

subsection \<open>Rounding to doubles\<close>















subsection \<open>Attempts, retries and backoff (C6, C7, C8)\<close>

declare ollama_loop.simps [simp del]
declare gemini_loop.simps [simp del]

lemma ollama_retries_on_failure:
  assumes "attempt \<le> maxAttempts" and "ollama_attempt parse schema generate ncalls = Inl e"
  shows "ollama_loop parse schema generate attempt lastError ncalls slept =
         ollama_loop parse schema generate (attempt + 1) (Some e) (Suc ncalls)
           (if attempt < maxAttempts then slept @ [1000] else slept)"
  by (subst ollama_loop.simps) (simp add: assms)


lemma ollama_gives_up:
  assumes "maxAttempts < attempt"
  shows "ollama_loop parse schema generate attempt (Some e) ncalls slept =
         \<lparr> outcome = Inl e, calls = ncalls, sleeps = slept \<rparr>"
  using assms by (subst ollama_loop.simps) simp

lemma ollama_three_failures:
  assumes "ollama_attempt parse schema generate 0 = Inl e0"
    and "ollama_attempt parse schema generate (Suc 0) = Inl e1"
    and "ollama_attempt parse schema generate (Suc (Suc 0)) = Inl e2"
  shows "ollama_generateStructuredOutput parse schema generate =
           \<lparr> outcome = Inl e2, calls = 3, sleeps = [1000, 1000] \<rparr>"
proof -
  have m: "maxAttempts = Suc (Suc (Suc 0))"
    by (simp add: maxAttempts_def)
  have "ollama_generateStructuredOutput parse schema generate =
        ollama_loop parse schema generate (Suc 0) None 0 []"
    by (simp add: ollama_generateStructuredOutput_def)
  also have "\<dots> = ollama_loop parse schema generate (Suc (Suc 0)) (Some e0) (Suc 0) [1000]"
    using ollama_retries_on_failure [of "Suc 0" parse schema generate 0 e0 None "[]"] assms(1)
    by (simp add: m)
  also have "\<dots> = ollama_loop parse schema generate (Suc (Suc (Suc 0))) (Some e1) (Suc (Suc 0))
                       [1000, 1000]"
    using ollama_retries_on_failure [of "Suc (Suc 0)" parse schema generate "Suc 0" e1 "Some e0" "[1000]"]
      assms(2)
    by (simp add: m)
  also have "\<dots> = ollama_loop parse schema generate (Suc (Suc (Suc (Suc 0)))) (Some e2)
                       (Suc (Suc (Suc 0))) [1000, 1000]"
    using ollama_retries_on_failure [of "Suc (Suc (Suc 0))" parse schema generate "Suc (Suc 0)" e2
        "Some e1" "[1000, 1000]"] assms(3)
    by (simp add: m)
  also have "\<dots> = \<lparr> outcome = Inl e2, calls = Suc (Suc (Suc 0)), sleeps = [1000, 1000] \<rparr>"
    by (rule ollama_gives_up) (simp add: m)
  finally show ?thesis by (simp add: numeral_3_eq_3)
qed


lemma gemini_stops_on_other_error:
  assumes "retryCount < maxRetries"
    and "gemini_attempt parse schema generate ncalls = Inl e" and "\<not> is_rate_limit e"
  shows "gemini_loop parse schema generate random retryCount lastError ncalls slept =
           \<lparr> outcome = Inl e, calls = Suc ncalls, sleeps = slept \<rparr>"
  by (subst gemini_loop.simps) (simp add: assms)












text \<open>
  C7, as amended. On the gemini and openai paths a transport error that is not a rate-limit
  signal is thrown to the caller at once: no further call, no delay (on the gemini path at
  any point of its loop). On the ollama path every error of an attempt is caught: a
  transport error is followed by a 1 second delay and a new attempt until the 3 attempts are
  used, and then the last error is thrown.
\<close>

theorem transport_errors_per_backend:
  "(generate 0 = Inl e \<and> \<not> is_rate_limit e \<longrightarrow>
      generateStructuredOutput parse schema generate random Gemini =
        \<lparr> outcome = Inl e, calls = 1, sleeps = [] \<rparr>) \<and>
   (retryCount < maxRetries \<and> generate ncalls = Inl e \<and> \<not> is_rate_limit e \<longrightarrow>
      gemini_loop parse schema generate random retryCount lastError ncalls slept =
        \<lparr> outcome = Inl e, calls = Suc ncalls, sleeps = slept \<rparr>) \<and>
   (generate 0 = Inl e \<longrightarrow>
      generateStructuredOutput parse schema generate random OpenAI =
        \<lparr> outcome = Inl e, calls = 1, sleeps = [] \<rparr>) \<and>
   (generate 0 = Inl e0 \<and> generate 1 = Inl e1 \<and> generate 2 = Inl e2 \<longrightarrow>
      generateStructuredOutput parse schema generate random Ollama =
        \<lparr> outcome = Inl e2, calls = 3, sleeps = [1000, 1000] \<rparr>)"
proof -
  have loop: "retryCount < maxRetries \<and> generate ncalls = Inl e \<and> \<not> is_rate_limit e \<longrightarrow>
      gemini_loop parse schema generate random retryCount lastError ncalls slept =
        \<lparr> outcome = Inl e, calls = Suc ncalls, sleeps = slept \<rparr>"
    for retryCount ncalls lastError slept
  proof
    assume a: "retryCount < maxRetries \<and> generate ncalls = Inl e \<and> \<not> is_rate_limit e"
    then have "gemini_attempt parse schema generate ncalls = Inl e"
      by (simp add: gemini_attempt_def)
    then show "gemini_loop parse schema generate random retryCount lastError ncalls slept =
        \<lparr> outcome = Inl e, calls = Suc ncalls, sleeps = slept \<rparr>"
      using a by (intro gemini_stops_on_other_error) simp_all
  qed
  have g: "generate 0 = Inl e \<and> \<not> is_rate_limit e \<longrightarrow>
      generateStructuredOutput parse schema generate random Gemini =
        \<lparr> outcome = Inl e, calls = 1, sleeps = [] \<rparr>"
    using loop [of 0 0 None "[]"]
    by (simp add: generateStructuredOutput_def gemini_generateStructuredOutput_def maxRetries_def)
  have p: "generate 0 = Inl e \<longrightarrow>
      generateStructuredOutput parse schema generate random OpenAI =
        \<lparr> outcome = Inl e, calls = 1, sleeps = [] \<rparr>"
    by (simp add: generateStructuredOutput_def)
  have o: "generate 0 = Inl e0 \<and> generate 1 = Inl e1 \<and> generate 2 = Inl e2 \<longrightarrow>
      generateStructuredOutput parse schema generate random Ollama =
        \<lparr> outcome = Inl e2, calls = 3, sleeps = [1000, 1000] \<rparr>"
  proof
    assume a: "generate 0 = Inl e0 \<and> generate 1 = Inl e1 \<and> generate 2 = Inl e2"
    have "ollama_attempt parse schema generate 0 = Inl e0"
      "ollama_attempt parse schema generate (Suc 0) = Inl e1"
      "ollama_attempt parse schema generate (Suc (Suc 0)) = Inl e2"
      using a by (simp_all add: ollama_attempt_def numeral_2_eq_2)
    then show "generateStructuredOutput parse schema generate random Ollama =
        \<lparr> outcome = Inl e2, calls = 3, sleeps = [1000, 1000] \<rparr>"
      using ollama_three_failures by (simp add: generateStructuredOutput_def)
  qed
  show ?thesis using g loop p o by blast
qed

theorem transport_errors_per_backend_witness:
  "generateStructuredOutput sample_parse sample_schema refusing_backend half_jitter Gemini =
     \<lparr> outcome = Inl (Error (ascii ''connect ECONNREFUSED'')), calls = 1, sleeps = [] \<rparr> \<and>
   generateStructuredOutput sample_parse sample_schema refusing_backend half_jitter OpenAI =
     \<lparr> outcome = Inl (Error (ascii ''connect ECONNREFUSED'')), calls = 1, sleeps = [] \<rparr>"
proof -
  have a: "refusing_backend 0 = Inl (Error (ascii ''connect ECONNREFUSED''))"
    by (simp add: refusing_backend_def)
  have b: "\<not> is_rate_limit (Error (ascii ''connect ECONNREFUSED''))"
    by code_simp
  show ?thesis
    using a b transport_errors_per_backend [where generate = refusing_backend
        and e = "Error (ascii ''connect ECONNREFUSED'')" and parse = sample_parse
        and schema = sample_schema and random = half_jitter]
    by blast
qed

text \<open>
  C7 as stated fails for the ollama backend: a connection error is retried until the three
  attempts are used, with two delays of one second.
\<close>

theorem ollama_retries_transport_error:
  "generateStructuredOutput sample_parse sample_schema refusing_backend half_jitter Ollama =
     \<lparr> outcome = Inl (Error (ascii ''connect ECONNREFUSED'')), calls = 3, sleeps = [1000, 1000] \<rparr>"
  by code_simp




end
